theory Spec2Isabelle
  imports Main "HOL-Library.Word"
begin

unbundle bit_operations_syntax

section \<open>perfEvents_linux.cpp: perf-event sampling for one process\<close>

text \<open>
  The development embeds \<^verbatim>\<open>src/perfEvents_linux.cpp\<close>: the event catalog
  (\<^verbatim>\<open>PerfEventType\<close>), the per-thread counter slots (\<^verbatim>\<open>PerfEvent\<close>,
  \<^verbatim>\<open>PerfEvents\<close>), the signal handler and the ring-buffer reader.

  Conventions. A C string is the \<open>string\<close> of its characters before the terminating NUL.
  A pointer into \<^verbatim>\<open>AVAILABLE_EVENTS\<close> is the index of the entry, \<open>NULL\<close> is \<open>None\<close>.
  \<^verbatim>\<open>int\<close> and \<^verbatim>\<open>long\<close> values are \<open>int\<close>; the unsigned kernel types
  \<^verbatim>\<open>__u32\<close> and \<^verbatim>\<open>__u64\<close> are words, and so are addresses. The target is
  LP64 little-endian Linux, as \<^verbatim>\<open>arch.h\<close> supports.
  An execution that has no defined result in C is a value of type \<open>fault\<close>.
\<close>

datatype fault =
    OutOfBounds    \<comment> \<open>an access outside an array or buffer\<close>
  | NullPointer    \<comment> \<open>a dereference of \<open>NULL\<close>\<close>
  | NeverReturns   \<comment> \<open>a loop that never exits\<close>

type_synonym u32 = "32 word"
type_synonym u64 = "64 word"

subsection \<open>The C library functions the file calls\<close>

definition NUL :: char where
  "NUL = CHR 0x00"

definition c_str :: "string \<Rightarrow> string" where
  "c_str bytes = takeWhile (\<lambda>c. c \<noteq> NUL) bytes"

definition isspace :: "char \<Rightarrow> bool" where
  "isspace c = (c = CHR '' '' \<or> c = CHR 0x09 \<or> c = CHR 0x0A \<or> c = CHR 0x0B
                \<or> c = CHR 0x0C \<or> c = CHR 0x0D)"

definition digit_value :: "char \<Rightarrow> nat option" where
  "digit_value c =
     (let n = (of_char c :: nat) in
      if 48 \<le> n \<and> n \<le> 57 then Some (n - 48)
      else if 97 \<le> n \<and> n \<le> 122 then Some (n - 87)
      else if 65 \<le> n \<and> n \<le> 90 then Some (n - 55)
      else None)"

text \<open>The value of the longest prefix of digits valid in the base, 0 when there is none.\<close>

fun digits :: "nat \<Rightarrow> string \<Rightarrow> nat \<Rightarrow> nat" where
  "digits base [] acc = acc"
| "digits base (c # cs) acc =
     (case digit_value c of
        None \<Rightarrow> acc
      | Some d \<Rightarrow> if d < base then digits base cs (acc * base + d) else acc)"

fun has_0x :: "string \<Rightarrow> bool" where
  "has_0x (a # b # cs) = (a = CHR ''0'' \<and> (b = CHR ''x'' \<or> b = CHR ''X''))"
| "has_0x cs = False"

fun has_sign :: "string \<Rightarrow> bool" where
  "has_sign (c # cs) = (c = CHR ''-'' \<or> c = CHR ''+'')"
| "has_sign [] = False"

fun is_negative :: "string \<Rightarrow> bool" where
  "is_negative (c # cs) = (c = CHR ''-'')"
| "is_negative [] = False"

fun leading_zero :: "string \<Rightarrow> bool" where
  "leading_zero (c # cs) = (c = CHR ''0'')"
| "leading_zero [] = False"

definition LONG_MAX :: int where
  "LONG_MAX = 2 ^ 63 - 1"

definition LONG_MIN :: int where
  "LONG_MIN = - (2 ^ 63)"

text \<open>
  \<^verbatim>\<open>strtol(nptr, NULL, base)\<close> of ISO C for \<open>base\<close> 0, 10 or 16: white space, an optional
  sign, with base 0 (or 16) an optional \<^verbatim>\<open>0x\<close>, with base 0 a leading \<^verbatim>\<open>0\<close> for
  octal; the result is clamped to the range of \<^verbatim>\<open>long\<close>. \<^verbatim>\<open>strtoll\<close> is the same
  function on LP64.
\<close>

definition strtol :: "string \<Rightarrow> nat \<Rightarrow> int" where
  "strtol nptr base =
     (let s1 = dropWhile isspace nptr;
          s2 = (if has_sign s1 then tl s1 else s1);
          b = (if (base = 0 \<or> base = 16) \<and> has_0x s2 then 16
               else if base = 0 \<and> leading_zero s2 then 8
               else if base = 0 then 10
               else base);
          s3 = (if (base = 0 \<or> base = 16) \<and> has_0x s2 then drop 2 s2 else s2);
          v = int (digits b s3 0)
      in if is_negative s1 then max (- v) LONG_MIN else min v LONG_MAX)"

definition strtoll :: "string \<Rightarrow> nat \<Rightarrow> int" where
  "strtoll nptr base = strtol nptr base"

text \<open>\<^verbatim>\<open>atoi(s)\<close> is \<^verbatim>\<open>(int) strtol(s, NULL, 10)\<close>: the low 32 bits, read as signed.\<close>

definition atoi :: "string \<Rightarrow> int" where
  "atoi nptr = sint (word_of_int (strtol nptr 10) :: 32 word)"

text \<open>\<^verbatim>\<open>strchr\<close> and \<^verbatim>\<open>strrchr\<close> return the position of the first and last occurrence.\<close>

fun strchr :: "string \<Rightarrow> char \<Rightarrow> nat option" where
  "strchr [] ch = None"
| "strchr (c # cs) ch = (if c = ch then Some 0 else map_option Suc (strchr cs ch))"

fun strrchr :: "string \<Rightarrow> char \<Rightarrow> nat option" where
  "strrchr [] ch = None"
| "strrchr (c # cs) ch =
     (case strrchr cs ch of
        Some i \<Rightarrow> Some (Suc i)
      | None \<Rightarrow> if c = ch then Some 0 else None)"

text \<open>
  \<^verbatim>\<open>read(fd, buf, 15)\<close> into a 16-byte buffer initialised with the string \<open>init\<close> and
  zeros: the bytes read replace the front of the buffer.
\<close>

definition read_over :: "string \<Rightarrow> string \<Rightarrow> string" where
  "read_over init bytes = c_str (take 15 bytes @ drop (length (take 15 bytes)) init)"

subsection \<open>Constants of the kernel interface\<close>

text \<open>From \<^verbatim>\<open>linux/perf_event.h\<close> and \<^verbatim>\<open>linux/hw_breakpoint.h\<close>.\<close>

definition PERF_TYPE_HARDWARE :: u32 where "PERF_TYPE_HARDWARE = 0"
definition PERF_TYPE_SOFTWARE :: u32 where "PERF_TYPE_SOFTWARE = 1"
definition PERF_TYPE_TRACEPOINT :: u32 where "PERF_TYPE_TRACEPOINT = 2"
definition PERF_TYPE_HW_CACHE :: u32 where "PERF_TYPE_HW_CACHE = 3"
definition PERF_TYPE_BREAKPOINT :: u32 where "PERF_TYPE_BREAKPOINT = 5"

definition PERF_COUNT_SW_CPU_CLOCK :: u64 where "PERF_COUNT_SW_CPU_CLOCK = 0"
definition PERF_COUNT_SW_PAGE_FAULTS :: u64 where "PERF_COUNT_SW_PAGE_FAULTS = 2"
definition PERF_COUNT_SW_CONTEXT_SWITCHES :: u64 where "PERF_COUNT_SW_CONTEXT_SWITCHES = 3"

definition PERF_COUNT_HW_CPU_CYCLES :: u64 where "PERF_COUNT_HW_CPU_CYCLES = 0"
definition PERF_COUNT_HW_INSTRUCTIONS :: u64 where "PERF_COUNT_HW_INSTRUCTIONS = 1"
definition PERF_COUNT_HW_CACHE_REFERENCES :: u64 where "PERF_COUNT_HW_CACHE_REFERENCES = 2"
definition PERF_COUNT_HW_CACHE_MISSES :: u64 where "PERF_COUNT_HW_CACHE_MISSES = 3"
definition PERF_COUNT_HW_BRANCH_INSTRUCTIONS :: u64 where "PERF_COUNT_HW_BRANCH_INSTRUCTIONS = 4"
definition PERF_COUNT_HW_BRANCH_MISSES :: u64 where "PERF_COUNT_HW_BRANCH_MISSES = 5"
definition PERF_COUNT_HW_BUS_CYCLES :: u64 where "PERF_COUNT_HW_BUS_CYCLES = 6"

definition PERF_COUNT_HW_CACHE_L1D :: u64 where "PERF_COUNT_HW_CACHE_L1D = 0"
definition PERF_COUNT_HW_CACHE_LL :: u64 where "PERF_COUNT_HW_CACHE_LL = 2"
definition PERF_COUNT_HW_CACHE_DTLB :: u64 where "PERF_COUNT_HW_CACHE_DTLB = 3"
definition PERF_COUNT_HW_CACHE_OP_READ :: u64 where "PERF_COUNT_HW_CACHE_OP_READ = 0"
definition PERF_COUNT_HW_CACHE_RESULT_MISS :: u64 where "PERF_COUNT_HW_CACHE_RESULT_MISS = 1"

definition HW_BREAKPOINT_R :: u32 where "HW_BREAKPOINT_R = 1"
definition HW_BREAKPOINT_W :: u32 where "HW_BREAKPOINT_W = 2"
definition HW_BREAKPOINT_RW :: u32 where "HW_BREAKPOINT_RW = 3"
definition HW_BREAKPOINT_X :: u32 where "HW_BREAKPOINT_X = 4"

definition PERF_SAMPLE_CALLCHAIN :: u64 where "PERF_SAMPLE_CALLCHAIN = 32"
definition PERF_RECORD_SAMPLE :: u32 where "PERF_RECORD_SAMPLE = 9"
definition PERF_CONTEXT_MAX :: u64 where "PERF_CONTEXT_MAX = - 4095"

text \<open>\<^verbatim>\<open>sizeof(long)\<close> on LP64.\<close>

definition sizeof_long :: u32 where
  "sizeof_long = 8"

definition LOAD_MISS :: "u64 \<Rightarrow> u64" where
  "LOAD_MISS perf_hw_cache_id =
     perf_hw_cache_id OR push_bit 8 PERF_COUNT_HW_CACHE_OP_READ
       OR push_bit 16 PERF_COUNT_HW_CACHE_RESULT_MISS"

subsection \<open>The operating system, as the code sees it\<close>

text \<open>
  The fields of \<^verbatim>\<open>struct perf_event_attr\<close> that \<^verbatim>\<open>createForThread\<close> sets, but for
  \<^verbatim>\<open>size\<close>, which is the size of the structure; all others are 0.
\<close>

record perf_event_attr =
  attr_type :: u32
  attr_config :: u64
  attr_bp_addr :: u64
  attr_bp_type :: u32
  attr_bp_len :: u64
  attr_precise_ip :: u32
  attr_sample_period :: u64
  attr_sample_type :: u64
  attr_disabled :: bool
  attr_wakeup_events :: u32
  attr_exclude_idle :: bool

text \<open>
  The mapping of a counter: the control page with the two cursors, and the bytes that follow
  it from \<^verbatim>\<open>(const char*)page + PERF_PAGE_SIZE\<close> on, indexed by their distance from
  that address. The data page is the first \<^verbatim>\<open>PERF_PAGE_SIZE\<close> of them; nothing is
  assumed about the bytes behind it.
\<close>

record perf_event_mmap_page =
  data_head :: u64
  data_tail :: u64
  data_bytes :: "nat \<Rightarrow> 8 word"

text \<open>
  Modelled from the spec: \<^verbatim>\<open>StackFrame\<close> of \<^verbatim>\<open>stackFrame.h\<close> is not part of the
  source at hand; the handler reads "that argument's value directly from the interrupted
  thread's saved register state". A \<open>ucontext\<close> is the four argument registers saved for the
  interrupted thread.
\<close>

record ucontext =
  arg0 :: u64
  arg1 :: u64
  arg2 :: u64
  arg3 :: u64

text \<open>
  What the process reads from its environment: each field is the answer of the system to the
  call of that name.
\<close>

record env =
  PERF_PAGE_SIZE :: u64
    \<comment> \<open>\<^verbatim>\<open>sysconf(_SC_PAGESIZE)\<close>\<close>
  read_file :: "string \<Rightarrow> string option"
    \<comment> \<open>\<^verbatim>\<open>open\<close> and \<^verbatim>\<open>read\<close> of a path: the bytes read, \<open>None\<close> when \<^verbatim>\<open>open\<close> fails\<close>
  dlsym :: "string \<Rightarrow> u64"
    \<comment> \<open>\<^verbatim>\<open>dlsym(RTLD_DEFAULT, name)\<close>, 0 for an unknown symbol\<close>
  perf_event_open :: "perf_event_attr \<Rightarrow> int \<Rightarrow> int"
    \<comment> \<open>\<^verbatim>\<open>syscall(__NR_perf_event_open, &attr, tid, -1, -1, 0)\<close>\<close>
  mmap :: "int \<Rightarrow> perf_event_mmap_page option"
    \<comment> \<open>the two-page mapping of a counter, \<open>None\<close> for \<^verbatim>\<open>MAP_FAILED\<close>\<close>
  read_counter :: "int \<Rightarrow> u64 option"
    \<comment> \<open>\<^verbatim>\<open>read(fd, &counter, 8)\<close>: the value when exactly 8 bytes were read\<close>
  task_dir :: "string list option"
    \<comment> \<open>the entry names of \<^verbatim>\<open>/proc/self/task\<close>, \<open>None\<close> when \<^verbatim>\<open>opendir\<close> fails\<close>

definition getMaxPID :: "env \<Rightarrow> int" where
  "getMaxPID env =
     (case read_file env ''/proc/sys/kernel/pid_max'' of
        None \<Rightarrow> atoi ''65536''
      | Some bytes \<Rightarrow> atoi (read_over ''65536'' bytes))"

fun replace_first :: "char \<Rightarrow> char \<Rightarrow> string \<Rightarrow> string" where
  "replace_first a b [] = []"
| "replace_first a b (c # cs) = (if c = a then b # cs else c # replace_first a b cs)"

text \<open>
  \<^verbatim>\<open>findTracepointId\<close> is only called with a name that holds a colon, so the
  \<^verbatim>\<open>strchr\<close> it dereferences is not \<open>NULL\<close>.
\<close>

definition findTracepointId :: "env \<Rightarrow> string \<Rightarrow> int" where
  "findTracepointId env name =
     (let buf = ''/sys/kernel/debug/tracing/events/'' @ name @ ''/id'' in
      if length buf \<ge> 256 then 0
      else
        (case read_file env (replace_first (CHR '':'') (CHR ''/'') buf) of
           None \<Rightarrow> 0
         | Some bytes \<Rightarrow> atoi (read_over ''0'' bytes)))"

subsection \<open>The event catalog\<close>

record PerfEventType =
  name :: "string option"
  default_interval :: int
  precise_ip :: u32
  type :: u32
  config :: u64
  bp_type :: u32
  bp_len :: u32
  counter_arg :: int

definition event :: "string \<Rightarrow> int \<Rightarrow> u32 \<Rightarrow> u32 \<Rightarrow> u64 \<Rightarrow> PerfEventType" where
  "event n i p t c =
     \<lparr>name = Some n, default_interval = i, precise_ip = p, type = t, config = c,
      bp_type = 0, bp_len = 0, counter_arg = 0\<rparr>"

definition terminator :: PerfEventType where
  "terminator =
     \<lparr>name = None, default_interval = 0, precise_ip = 0, type = 0, config = 0,
      bp_type = 0, bp_len = 0, counter_arg = 0\<rparr>"

text \<open>
  The initial contents of the static table. \<^verbatim>\<open>DEFAULT_INTERVAL\<close> comes from a header
  that is not part of the source at hand, so it is a parameter.
\<close>

definition AVAILABLE_EVENTS :: "int \<Rightarrow> PerfEventType list" where
  "AVAILABLE_EVENTS DEFAULT_INTERVAL =
     [event ''cpu'' DEFAULT_INTERVAL 2 PERF_TYPE_SOFTWARE PERF_COUNT_SW_CPU_CLOCK,
      event ''page-faults'' 1 2 PERF_TYPE_SOFTWARE PERF_COUNT_SW_PAGE_FAULTS,
      event ''context-switches'' 1 2 PERF_TYPE_SOFTWARE PERF_COUNT_SW_CONTEXT_SWITCHES,
      event ''cycles'' 1000000 2 PERF_TYPE_HARDWARE PERF_COUNT_HW_CPU_CYCLES,
      event ''instructions'' 1000000 2 PERF_TYPE_HARDWARE PERF_COUNT_HW_INSTRUCTIONS,
      event ''cache-references'' 1000000 0 PERF_TYPE_HARDWARE PERF_COUNT_HW_CACHE_REFERENCES,
      event ''cache-misses'' 1000 0 PERF_TYPE_HARDWARE PERF_COUNT_HW_CACHE_MISSES,
      event ''branches'' 1000000 2 PERF_TYPE_HARDWARE PERF_COUNT_HW_BRANCH_INSTRUCTIONS,
      event ''branch-misses'' 1000 2 PERF_TYPE_HARDWARE PERF_COUNT_HW_BRANCH_MISSES,
      event ''bus-cycles'' 1000000 0 PERF_TYPE_HARDWARE PERF_COUNT_HW_BUS_CYCLES,
      event ''L1-dcache-load-misses'' 1000000 0 PERF_TYPE_HW_CACHE
        (LOAD_MISS PERF_COUNT_HW_CACHE_L1D),
      event ''LLC-load-misses'' 1000 0 PERF_TYPE_HW_CACHE (LOAD_MISS PERF_COUNT_HW_CACHE_LL),
      event ''dTLB-load-misses'' 1000 0 PERF_TYPE_HW_CACHE (LOAD_MISS PERF_COUNT_HW_CACHE_DTLB),
      event ''mem:breakpoint'' 1 0 PERF_TYPE_BREAKPOINT 0,
      event ''trace:tracepoint'' 1 0 PERF_TYPE_TRACEPOINT 0,
      terminator]"

definition KNOWN_FUNCTIONS :: "(string \<times> int) list" where
  "KNOWN_FUNCTIONS =
     [(''malloc'', 1), (''mmap'', 2), (''read'', 3), (''write'', 3),
      (''send'', 3), (''recv'', 3), (''sendto'', 3), (''recvfrom'', 3)]"

fun findCounterArg_from :: "(string \<times> int) list \<Rightarrow> string \<Rightarrow> int" where
  "findCounterArg_from [] n = 0"
| "findCounterArg_from (func # funcs) n =
     (if n = fst func then snd func else findCounterArg_from funcs n)"

definition findCounterArg :: "string \<Rightarrow> int" where
  "findCounterArg n = findCounterArg_from KNOWN_FUNCTIONS n"

text \<open>
  \<^verbatim>\<open>findByType\<close> walks the table with no end test; \<open>i\<close> is the index of the entry at the
  head of the remaining table.
\<close>

fun findByType_from :: "PerfEventType list \<Rightarrow> nat \<Rightarrow> u32 \<Rightarrow> fault + nat" where
  "findByType_from [] i t = Inl OutOfBounds"
| "findByType_from (e # es) i t = (if type e = t then Inr i else findByType_from es (Suc i) t)"

definition findByType :: "PerfEventType list \<Rightarrow> u32 \<Rightarrow> fault + nat" where
  "findByType tbl t = findByType_from tbl 0 t"

text \<open>The three optional suffixes of a breakpoint, each cut at the last occurrence of its mark.\<close>

definition parse_access :: "string \<Rightarrow> u32 \<Rightarrow> u32 \<Rightarrow> string \<times> u32 \<times> u32" where
  "parse_access buf bp_type0 bp_len0 =
     (case strrchr buf (CHR '':'') of
        None \<Rightarrow> (buf, bp_type0, bp_len0)
      | Some i \<Rightarrow>
          (let c = drop (Suc i) buf in
           if c = ''r'' then (take i buf, HW_BREAKPOINT_R, bp_len0)
           else if c = ''w'' then (take i buf, HW_BREAKPOINT_W, bp_len0)
           else if c = ''x'' then (take i buf, HW_BREAKPOINT_X, sizeof_long)
           else (take i buf, HW_BREAKPOINT_RW, bp_len0)))"

definition parse_length :: "string \<Rightarrow> u32 \<Rightarrow> string \<times> u32" where
  "parse_length buf bp_len0 =
     (case strrchr buf (CHR ''/'') of
        None \<Rightarrow> (buf, bp_len0)
      | Some i \<Rightarrow> (take i buf, word_of_int (strtol (drop (Suc i) buf) 0)))"

definition parse_offset :: "string \<Rightarrow> string \<times> u64" where
  "parse_offset buf =
     (case strrchr buf (CHR ''+'') of
        None \<Rightarrow> (buf, 0)
      | Some i \<Rightarrow> (take i buf, word_of_int (strtoll (drop (Suc i) buf) 0)))"

text \<open>
  \<^verbatim>\<open>getBreakpoint\<close>. \<^verbatim>\<open>strncpy(buf, name, 256)\<close> leaves \<open>buf\<close> without terminator
  when the name has 256 characters or more, and the searches that follow run past it. The
  result is the pointer returned and the table, whose breakpoint entry the function overwrites.
\<close>

definition getBreakpoint ::
  "env \<Rightarrow> PerfEventType list \<Rightarrow> string \<Rightarrow> u32 \<Rightarrow> u32 \<Rightarrow> fault + (nat option \<times> PerfEventType list)"
where
  "getBreakpoint env tbl nm bp_type0 bp_len0 =
     (if length nm \<ge> 256 then Inl OutOfBounds
      else
        (case parse_access nm bp_type0 bp_len0 of (buf1, bpt, bp_len1) \<Rightarrow>
         case parse_length buf1 bp_len1 of (buf2, bpl) \<Rightarrow>
         case parse_offset buf2 of (buf, offset) \<Rightarrow>
           (let addr = (if take 2 buf = ''0x'' then word_of_int (strtoll buf 0)
                        else dlsym env buf)
            in if take 2 buf \<noteq> ''0x'' \<and> addr = 0 then Inr (None, tbl)
               else
                 (case findByType tbl PERF_TYPE_BREAKPOINT of
                    Inl f \<Rightarrow> Inl f
                  | Inr b \<Rightarrow>
                      Inr (Some b,
                           tbl[b := (tbl ! b)\<lparr>config := addr + offset, bp_type := bpt,
                                 bp_len := bpl,
                                 counter_arg := (if bpt = HW_BREAKPOINT_X
                                                 then findCounterArg buf else 0)\<rparr>])))))"

definition getTracepoint ::
  "PerfEventType list \<Rightarrow> int \<Rightarrow> fault + (nat option \<times> PerfEventType list)"
where
  "getTracepoint tbl tracepoint_id =
     (case findByType tbl PERF_TYPE_TRACEPOINT of
        Inl f \<Rightarrow> Inl f
      | Inr t \<Rightarrow> Inr (Some t, tbl[t := (tbl ! t)\<lparr>config := word_of_int tracepoint_id\<rparr>]))"

text \<open>The loop of \<^verbatim>\<open>forName\<close> over the predefined events ends at the entry without name.\<close>

fun find_predefined :: "PerfEventType list \<Rightarrow> nat \<Rightarrow> string \<Rightarrow> fault + nat option" where
  "find_predefined [] i n = Inl OutOfBounds"
| "find_predefined (e # es) i n =
     (case name e of
        None \<Rightarrow> Inr None
      | Some m \<Rightarrow> if n = m then Inr (Some i) else find_predefined es (Suc i) n)"

definition forName ::
  "env \<Rightarrow> PerfEventType list \<Rightarrow> string \<Rightarrow> fault + (nat option \<times> PerfEventType list)"
where
  "forName env tbl nm =
     (if take 4 nm = ''mem:'' then getBreakpoint env tbl (drop 4 nm) HW_BREAKPOINT_RW 1
      else if take 6 nm = ''trace:'' then
        (let tracepoint_id = atoi (drop 6 nm) in
         if tracepoint_id > 0 then getTracepoint tbl tracepoint_id else Inr (None, tbl))
      else
        (case find_predefined tbl 0 nm of
           Inl f \<Rightarrow> Inl f
         | Inr (Some e) \<Rightarrow> Inr (Some e, tbl)
         | Inr None \<Rightarrow>
             (if strchr nm (CHR '':'') \<noteq> None \<and> findTracepointId env nm > 0
              then getTracepoint tbl (findTracepointId env nm)
              else getBreakpoint env tbl nm HW_BREAKPOINT_X sizeof_long)))"

text \<open>
  \<^verbatim>\<open>getAvailableEvents\<close> copies the name pointer of every entry of the table, the
  terminating entry included, whose name is \<open>NULL\<close>.
\<close>

definition getAvailableEvents :: "PerfEventType list \<Rightarrow> string option list" where
  "getAvailableEvents tbl = map name tbl"

subsection \<open>The state of \<^verbatim>\<open>PerfEvents\<close>\<close>

text \<open>
  Modelled from the spec: \<^verbatim>\<open>SpinLock\<close> of \<^verbatim>\<open>spinLock.h\<close>, from which
  \<^verbatim>\<open>PerfEvent\<close> derives, is not part of the source at hand; the guard of a slot is "a
  mutual-exclusion guard" with "a non-blocking acquisition", which creation "re-initializes
  to unlocked". \<open>locked\<close> says that the guard is held: \<^verbatim>\<open>tryLock\<close> fails when it is and
  takes the guard when it is not, \<^verbatim>\<open>lock\<close> waits until it is not, \<^verbatim>\<open>unlock\<close> and
  \<^verbatim>\<open>reset\<close> free it.
\<close>

record PerfEvent =
  locked :: bool
  fd :: int
  page :: "perf_event_mmap_page option"

datatype ioctl_request =
    PERF_EVENT_IOC_RESET | PERF_EVENT_IOC_REFRESH | PERF_EVENT_IOC_DISABLE

datatype fcntl_command =
    F_SETFL_O_ASYNC | F_SETSIG_SIGPROF | F_SETOWN_EX_TID int

datatype jvmti_mode = JVMTI_ENABLE | JVMTI_DISABLE

text \<open>
  What the code does to the counters, to their buffers and to the standard error stream, and
  the samples it hands over, in the order of the calls. Reading a file, a directory or a symbol
  changes nothing and is not recorded; the handler of the signal and the notification modes
  are fields of the state.
\<close>

datatype effect =
    Warning int int
      \<comment> \<open>the warning on \<^verbatim>\<open>stderr\<close>, with the thread id and the capacity\<close>
  | Perror string
  | Perf_event_open perf_event_attr int
  | Mmap int
  | Fcntl int fcntl_command
  | Ioctl int ioctl_request int
  | Close int
  | Munmap
  | Read_counter int
  | RecordSample ucontext u64
      \<comment> \<open>\<^verbatim>\<open>Profiler::_instance.recordSample(ucontext, counter, 0, NULL)\<close>\<close>

text \<open>
  The static members of \<^verbatim>\<open>PerfEvents\<close> and what else a session changes: the static
  table of events, the disposition of \<^verbatim>\<open>SIGPROF\<close>, the two JVMTI notification modes
  and the calls made so far.
\<close>

record PerfEvents =
  max_events :: int
  events :: "PerfEvent list"
  event_type :: "nat option"
  interval :: int
  available_events :: "PerfEventType list"
  sigprof_handler :: bool
  thread_start_mode :: jvmti_mode
  thread_end_mode :: jvmti_mode
  trace :: "effect list"

definition emit :: "effect list \<Rightarrow> PerfEvents \<Rightarrow> PerfEvents" where
  "emit es s = s\<lparr>trace := trace s @ es\<rparr>"

text \<open>\<^verbatim>\<open>&_events[tid]\<close>: the slot, when \<open>tid\<close> is an index of the array.\<close>

definition event_at :: "PerfEvents \<Rightarrow> int \<Rightarrow> PerfEvent option" where
  "event_at s tid =
     (if 0 \<le> tid \<and> nat tid < length (events s) then Some (events s ! nat tid) else None)"

definition set_event :: "PerfEvents \<Rightarrow> int \<Rightarrow> PerfEvent \<Rightarrow> PerfEvents" where
  "set_event s tid ev = s\<lparr>events := (events s)[nat tid := ev]\<rparr>"

subsection \<open>Counters per thread\<close>

definition make_attr :: "PerfEventType \<Rightarrow> int \<Rightarrow> perf_event_attr" where
  "make_attr et ival =
     \<lparr>attr_type = type et,
      attr_config = (if type et = PERF_TYPE_BREAKPOINT then 0 else config et),
      attr_bp_addr = (if type et = PERF_TYPE_BREAKPOINT then config et else 0),
      attr_bp_type = (if type et = PERF_TYPE_BREAKPOINT then bp_type et else 0),
      attr_bp_len = (if type et = PERF_TYPE_BREAKPOINT then ucast (bp_len et) else 0),
      attr_precise_ip = precise_ip et,
      attr_sample_period = word_of_int ival,
      attr_sample_type = PERF_SAMPLE_CALLCHAIN,
      attr_disabled = True,
      attr_wakeup_events = 1,
      attr_exclude_idle = True\<rparr>"

definition createForThread :: "env \<Rightarrow> PerfEvents \<Rightarrow> int \<Rightarrow> fault + (bool \<times> PerfEvents)" where
  "createForThread env s tid =
     (if tid \<ge> max_events s then Inr (False, emit [Warning tid (max_events s)] s)
      else
        (case event_type s of
           None \<Rightarrow> Inl NullPointer
         | Some e \<Rightarrow>
             if e \<ge> length (available_events s) then Inl OutOfBounds
             else
               (let attr = make_attr (available_events s ! e) (interval s);
                    new_fd = perf_event_open env attr tid;
                    s1 = emit [Perf_event_open attr tid] s
                in if new_fd = - 1 then Inr (False, emit [Perror ''perf_event_open failed''] s1)
                   else
                     (let new_page = mmap env new_fd;
                          s2 = emit (Mmap new_fd #
                                 (if new_page = None then [Perror ''perf_event mmap failed'']
                                  else [])) s1
                      in if event_at s2 tid = None then Inl OutOfBounds
                         else
                           Inr (True,
                                emit [Fcntl new_fd F_SETFL_O_ASYNC,
                                      Fcntl new_fd F_SETSIG_SIGPROF,
                                      Fcntl new_fd (F_SETOWN_EX_TID tid),
                                      Ioctl new_fd PERF_EVENT_IOC_RESET 0,
                                      Ioctl new_fd PERF_EVENT_IOC_REFRESH 1]
                                  (set_event s2 tid
                                     \<lparr>locked = False, fd = new_fd, page = new_page\<rparr>))))))"

text \<open>
  The loop of \<^verbatim>\<open>createForAllThreads\<close> over the entries of the directory. An empty
  name does not start with a dot.
\<close>

fun createForEntries ::
  "env \<Rightarrow> string list \<Rightarrow> bool \<Rightarrow> PerfEvents \<Rightarrow> fault + (bool \<times> PerfEvents)"
where
  "createForEntries env [] success s = Inr (success, s)"
| "createForEntries env (d_name # entries) success s =
     (if take 1 d_name = ''.'' then createForEntries env entries success s
      else
        (case createForThread env s (atoi d_name) of
           Inl f \<Rightarrow> Inl f
         | Inr (created, s') \<Rightarrow> createForEntries env entries (success \<or> created) s'))"

definition createForAllThreads :: "env \<Rightarrow> PerfEvents \<Rightarrow> fault + (bool \<times> PerfEvents)" where
  "createForAllThreads env s =
     (case task_dir env of
        None \<Rightarrow> Inr (False, s)
      | Some entries \<Rightarrow> createForEntries env entries False s)"

text \<open>
  \<^verbatim>\<open>destroyForThread\<close>. \<^verbatim>\<open>event->lock()\<close> waits until the guard is free; in a
  sequential execution nobody releases a guard that is held, and the call never returns.
\<close>

definition destroyForThread :: "PerfEvents \<Rightarrow> int \<Rightarrow> fault + PerfEvents" where
  "destroyForThread s tid =
     (if tid \<ge> max_events s then Inr s
      else
        (case event_at s tid of
           None \<Rightarrow> Inl OutOfBounds
         | Some ev \<Rightarrow>
             (let s1 = (if fd ev \<noteq> 0
                        then emit [Ioctl (fd ev) PERF_EVENT_IOC_DISABLE 0, Close (fd ev)]
                               (set_event s tid (ev\<lparr>fd := 0\<rparr>))
                        else s);
                  ev1 = (if fd ev \<noteq> 0 then ev\<lparr>fd := 0\<rparr> else ev)
              in if page ev1 \<noteq> None then
                   (if locked ev1 then Inl NeverReturns
                    else Inr (emit [Munmap] (set_event s1 tid (ev1\<lparr>page := None\<rparr>))))
                 else Inr s1)))"

fun destroyForThreads :: "PerfEvents \<Rightarrow> int list \<Rightarrow> fault + PerfEvents" where
  "destroyForThreads s [] = Inr s"
| "destroyForThreads s (i # is) =
     (case destroyForThread s i of
        Inl f \<Rightarrow> Inl f
      | Inr s' \<Rightarrow> destroyForThreads s' is)"

definition destroyForAllThreads :: "PerfEvents \<Rightarrow> fault + PerfEvents" where
  "destroyForAllThreads s = destroyForThreads s (map int [0..<nat (max_events s)])"

definition installSignalHandler :: "PerfEvents \<Rightarrow> PerfEvents" where
  "installSignalHandler s = s\<lparr>sigprof_handler := True\<rparr>"

subsection \<open>The signal handler\<close>

record siginfo =
  si_code :: int
  si_fd :: int

definition signalHandler ::
  "env \<Rightarrow> PerfEvents \<Rightarrow> int \<Rightarrow> siginfo \<Rightarrow> ucontext \<Rightarrow> fault + PerfEvents"
where
  "signalHandler env s signo info uc =
     (if si_code info \<le> 0 then Inr s
      else
        (case event_type s of
           None \<Rightarrow> Inl NullPointer
         | Some e \<Rightarrow>
             if e \<ge> length (available_events s) then Inl OutOfBounds
             else
               (let arg = counter_arg (available_events s ! e);
                    counter = (if arg = 1 then arg0 uc
                               else if arg = 2 then arg1 uc
                               else if arg = 3 then arg2 uc
                               else if arg = 4 then arg3 uc
                               else (case read_counter env (si_fd info) of
                                       Some v \<Rightarrow> v
                                     | None \<Rightarrow> 1));
                    reads = (if arg = 1 \<or> arg = 2 \<or> arg = 3 \<or> arg = 4 then []
                             else [Read_counter (si_fd info)])
                in Inr (emit (reads @
                          [RecordSample uc counter,
                           Ioctl (si_fd info) PERF_EVENT_IOC_RESET 0,
                           Ioctl (si_fd info) PERF_EVENT_IOC_REFRESH 1]) s))))"

subsection \<open>Starting and stopping a session\<close>

text \<open>
  Modelled from the spec: the class \<^verbatim>\<open>Error\<close> is not part of the source at hand;
  \<^verbatim>\<open>start\<close> returns "a typed result distinguishable from success", here \<open>OK\<close> or an
  error with its message.
\<close>

datatype Error = OK | Error string

text \<open>A slot as \<^verbatim>\<open>calloc\<close> leaves it. The allocation is taken to succeed.\<close>

definition zero_event :: PerfEvent where
  "zero_event = \<lparr>locked = False, fd = 0, page = None\<rparr>"

definition start :: "env \<Rightarrow> PerfEvents \<Rightarrow> string \<Rightarrow> int \<Rightarrow> fault + (Error \<times> PerfEvents)" where
  "start env s ev ival =
     (case forName env (available_events s) ev of
        Inl f \<Rightarrow> Inl f
      | Inr (et, tbl) \<Rightarrow>
          (let s1 = s\<lparr>available_events := tbl, event_type := et\<rparr> in
           case et of
             None \<Rightarrow> Inr (Error ''Unsupported event type'', s1)
           | Some e \<Rightarrow>
               if ival < 0 then Inr (Error ''interval must be positive'', s1)
               else
                 (let s2 = s1\<lparr>interval := (if ival \<noteq> 0 then ival
                                            else default_interval (tbl ! e))\<rparr>;
                      new_max = getMaxPID env;
                      s3 = (if new_max \<noteq> max_events s2
                            then s2\<lparr>events := replicate (nat new_max) zero_event,
                                    max_events := new_max\<rparr>
                            else s2);
                      s4 = installSignalHandler s3;
                      s5 = s4\<lparr>thread_start_mode := JVMTI_ENABLE,
                               thread_end_mode := JVMTI_ENABLE\<rparr>
                  in case createForAllThreads env s5 of
                       Inl f \<Rightarrow> Inl f
                     | Inr (created, s6) \<Rightarrow>
                         if \<not> created
                         then Inr (Error ''Perf events unavailble. See stderr of the target process.'',
                                   s6)
                         else Inr (OK, s6))))"

definition stop :: "PerfEvents \<Rightarrow> fault + PerfEvents" where
  "stop s =
     destroyForAllThreads
       (s\<lparr>thread_start_mode := JVMTI_DISABLE, thread_end_mode := JVMTI_DISABLE\<rparr>)"

subsection \<open>The ring buffer\<close>

text \<open>Little-endian loads from the bytes behind the control page.\<close>

definition load16 :: "(nat \<Rightarrow> 8 word) \<Rightarrow> nat \<Rightarrow> 16 word" where
  "load16 m a = ucast (m a) OR push_bit 8 (ucast (m (a + 1)))"

definition load32 :: "(nat \<Rightarrow> 8 word) \<Rightarrow> nat \<Rightarrow> u32" where
  "load32 m a =
     ucast (m a) OR push_bit 8 (ucast (m (a + 1))) OR push_bit 16 (ucast (m (a + 2)))
       OR push_bit 24 (ucast (m (a + 3)))"

definition load64 :: "(nat \<Rightarrow> 8 word) \<Rightarrow> nat \<Rightarrow> u64" where
  "load64 m a =
     ucast (m a) OR push_bit 8 (ucast (m (a + 1))) OR push_bit 16 (ucast (m (a + 2)))
       OR push_bit 24 (ucast (m (a + 3))) OR push_bit 32 (ucast (m (a + 4)))
       OR push_bit 40 (ucast (m (a + 5))) OR push_bit 48 (ucast (m (a + 6)))
       OR push_bit 56 (ucast (m (a + 7)))"

text \<open>
  \<^verbatim>\<open>struct perf_event_header { __u32 type; __u16 misc; __u16 size; }\<close> at an offset of
  the data.
\<close>

definition hdr_type :: "(nat \<Rightarrow> 8 word) \<Rightarrow> u64 \<Rightarrow> u32" where
  "hdr_type m off = load32 m (unat off)"

definition hdr_size :: "(nat \<Rightarrow> 8 word) \<Rightarrow> u64 \<Rightarrow> 16 word" where
  "hdr_size m off = load16 m (unat off + 6)"

text \<open>
  \<^verbatim>\<open>RingBuffer\<close>: \<open>seek\<close> gives the new \<^verbatim>\<open>_offset\<close>, where the header is;
  \<open>next\<close> gives the new \<^verbatim>\<open>_offset\<close>, and \<open>next_value\<close> the word read there.
\<close>

definition seek :: "env \<Rightarrow> u64 \<Rightarrow> u64" where
  "seek env offset = offset AND (PERF_PAGE_SIZE env - 1)"

definition next_offset :: "env \<Rightarrow> u64 \<Rightarrow> u64" where
  "next_offset env off = (off + 8) AND (PERF_PAGE_SIZE env - 1)"

definition next_value :: "env \<Rightarrow> (nat \<Rightarrow> 8 word) \<Rightarrow> u64 \<Rightarrow> u64" where
  "next_value env m off = load64 m (unat (next_offset env off))"

text \<open>
  The inner loop of \<^verbatim>\<open>getCallChain\<close>. \<open>callchain\<close> is the sequence of the entries
  written so far: \<^verbatim>\<open>callchain[depth++] = iptr\<close> writes the entries in order from 0.
\<close>

function read_ips ::
  "env \<Rightarrow> (nat \<Rightarrow> 8 word) \<Rightarrow> u64 \<Rightarrow> u64 \<Rightarrow> int \<Rightarrow> u64 list \<Rightarrow> int \<Rightarrow> u64 \<Rightarrow> u64 \<Rightarrow> int \<times> u64 list"
where
  "read_ips env m off nr depth callchain max_depth jit_min_address jit_max_address =
     (if nr > 0 \<and> depth < max_depth then
        (let ip = next_value env m off in
         if ip < PERF_CONTEXT_MAX then
           (if jit_min_address \<le> ip \<and> ip < jit_max_address then (depth, callchain)
            else read_ips env m (next_offset env off) (nr - 1) (depth + 1) (callchain @ [ip])
                   max_depth jit_min_address jit_max_address)
         else read_ips env m (next_offset env off) (nr - 1) depth callchain
                max_depth jit_min_address jit_max_address)
      else (depth, callchain))"
  by pat_completeness auto
termination
  by (relation "measure (\<lambda>(env, m, off, nr, rest). unat nr)")
     (auto simp: unat_minus_one word_greater_zero_iff unat_gt_0)

declare read_ips.simps [simp del]

text \<open>
  The outer loop, over the records from \<open>tail\<close>. It does not end when a record that is not
  a sample has size 0.
\<close>

partial_function (option) scan ::
  "env \<Rightarrow> (nat \<Rightarrow> 8 word) \<Rightarrow> u64 \<Rightarrow> u64 \<Rightarrow> int \<Rightarrow> u64 \<Rightarrow> u64 \<Rightarrow> (int \<times> u64 list) option"
where
  "scan env m tail head max_depth jit_min_address jit_max_address =
     (if tail < head then
        (if hdr_type m (seek env tail) = PERF_RECORD_SAMPLE then
           Some (read_ips env m (next_offset env (seek env tail))
                   (next_value env m (seek env tail)) 0 [] max_depth
                   jit_min_address jit_max_address)
         else scan env m (tail + ucast (hdr_size m (seek env tail))) head max_depth
                jit_min_address jit_max_address)
      else Some (0, []))"

declare scan.simps [code]

text \<open>
  \<^verbatim>\<open>getCallChain\<close> returns the depth; the model adds the entries written and the new
  state. \<^verbatim>\<open>tryLock\<close> and \<^verbatim>\<open>unlock\<close> leave the guard as it was.
\<close>

definition getCallChain ::
  "env \<Rightarrow> PerfEvents \<Rightarrow> ucontext \<Rightarrow> int \<Rightarrow> int \<Rightarrow> u64 \<Rightarrow> u64
     \<Rightarrow> fault + (int \<times> u64 list \<times> PerfEvents)"
where
  "getCallChain env s uc tid max_depth jit_min_address jit_max_address =
     (case event_at s tid of
        None \<Rightarrow> Inl OutOfBounds
      | Some ev \<Rightarrow>
          if locked ev then Inr (0, [], s)
          else
            (case page ev of
               None \<Rightarrow> Inr (0, [], s)
             | Some p \<Rightarrow>
                 (case scan env (data_bytes p) (data_tail p) (data_head p) max_depth
                         jit_min_address jit_max_address of
                    None \<Rightarrow> Inl NeverReturns
                  | Some (depth, callchain) \<Rightarrow>
                      Inr (depth, callchain,
                           set_event s tid
                             (ev\<lparr>page := Some (p\<lparr>data_tail := data_head p\<rparr>)\<rparr>)))))"

subsection \<open>Notions used by the properties\<close>

text \<open>
  The code writes \<open>config\<close>, \<open>bp_type\<close>, \<open>bp_len\<close> and \<open>counter_arg\<close> of the breakpoint
  entry and \<open>config\<close> of the tracepoint entry, and nothing else of the table: in every
  state the table has the names and the types it was initialised with.
\<close>

definition catalog_ok :: "PerfEventType list \<Rightarrow> bool" where
  "catalog_ok tbl =
     (map name tbl = map name (AVAILABLE_EVENTS 0) \<and> map type tbl = map type (AVAILABLE_EVENTS 0))"

text \<open>
  A session between two calls: the array has \<^verbatim>\<open>_max_events\<close> slots, a descriptor is
  selected, and no guard is held.
\<close>

definition unlocked :: "PerfEvents \<Rightarrow> bool" where
  "unlocked s = list_all (\<lambda>ev. \<not> locked ev) (events s)"

definition session_ok :: "PerfEvents \<Rightarrow> bool" where
  "session_ok s =
     (length (events s) = nat (max_events s)
      \<and> (case event_type s of None \<Rightarrow> False | Some e \<Rightarrow> e < length (available_events s))
      \<and> unlocked s)"

definition page_at :: "PerfEvents \<Rightarrow> int \<Rightarrow> perf_event_mmap_page option" where
  "page_at s tid = (case event_at s tid of None \<Rightarrow> None | Some ev \<Rightarrow> page ev)"

text \<open>
  The instruction pointers of the sample record whose header is at \<open>off\<close>: the words that
  follow the count, as many as the count says.
\<close>

fun ips_from :: "env \<Rightarrow> (nat \<Rightarrow> 8 word) \<Rightarrow> u64 \<Rightarrow> nat \<Rightarrow> u64 list" where
  "ips_from env m off 0 = []"
| "ips_from env m off (Suc n) = next_value env m off # ips_from env m (next_offset env off) n"

definition sample_ips :: "env \<Rightarrow> (nat \<Rightarrow> 8 word) \<Rightarrow> u64 \<Rightarrow> u64 list" where
  "sample_ips env m off =
     ips_from env m (next_offset env off) (unat (next_value env m off))"

text \<open>
  The call chain as the specification words it: the addresses of the record, context markers
  left out, up to the first address inside the excluded range, and \<open>max_depth\<close> of them at
  most.
\<close>

definition call_chain_of :: "int \<Rightarrow> u64 \<Rightarrow> u64 \<Rightarrow> u64 list \<Rightarrow> u64 list" where
  "call_chain_of max_depth jit_min_address jit_max_address ips =
     take (nat max_depth)
       (takeWhile (\<lambda>ip. \<not> (jit_min_address \<le> ip \<and> ip < jit_max_address))
          (filter (\<lambda>ip. ip < PERF_CONTEXT_MAX) ips))"

text \<open>
  The records from \<open>tail\<close> lead to a sample or to \<open>head\<close> in finitely many steps: what the
  kernel guarantees of the records it writes, each with its true size.
\<close>

inductive scan_ends :: "env \<Rightarrow> (nat \<Rightarrow> 8 word) \<Rightarrow> u64 \<Rightarrow> u64 \<Rightarrow> bool" where
  at_head: "\<not> tail < head \<Longrightarrow> scan_ends env m tail head"
| at_sample:
    "tail < head \<Longrightarrow> hdr_type m (seek env tail) = PERF_RECORD_SAMPLE \<Longrightarrow> scan_ends env m tail head"
| skip:
    "tail < head \<Longrightarrow> hdr_type m (seek env tail) \<noteq> PERF_RECORD_SAMPLE \<Longrightarrow>
     scan_ends env m (tail + ucast (hdr_size m (seek env tail))) head \<Longrightarrow>
     scan_ends env m tail head"

code_pred scan_ends .

text \<open>
  The kernel is the producer of the ring: it writes records and moves \<^verbatim>\<open>data_head\<close>
  forward, and leaves \<^verbatim>\<open>data_tail\<close> to the reader.
\<close>

definition kernel_publish :: "perf_event_mmap_page \<Rightarrow> perf_event_mmap_page \<Rightarrow> bool" where
  "kernel_publish p q = (data_tail q = data_tail p \<and> data_head p \<le> data_head q)"

text \<open>
  The life of the buffer of one thread: calls of \<^verbatim>\<open>getCallChain\<close> for the thread, and
  the kernel publishing records in between.
\<close>

inductive ring_run :: "env \<Rightarrow> int \<Rightarrow> PerfEvents \<Rightarrow> PerfEvents \<Rightarrow> bool" where
  idle: "ring_run env tid s s"
| call:
    "ring_run env tid s t \<Longrightarrow>
     getCallChain env t uc tid max_depth jit_min_address jit_max_address = Inr (depth, chain, u) \<Longrightarrow>
     ring_run env tid s u"
| publish:
    "ring_run env tid s t \<Longrightarrow> event_at t tid = Some ev \<Longrightarrow> page ev = Some p \<Longrightarrow>
     kernel_publish p q \<Longrightarrow>
     ring_run env tid s (set_event t tid (ev\<lparr>page := Some q\<rparr>))"

subsection \<open>A concrete session\<close>

text \<open>The bytes of a sequence of 64-bit words, little-endian; zero behind them.\<close>

definition le_bytes :: "u64 list \<Rightarrow> nat \<Rightarrow> 8 word" where
  "le_bytes ws i =
     (if i div 8 < length ws then ucast (drop_bit (8 * (i mod 8)) (ws ! (i div 8))) else 0)"

text \<open>
  A buffer with a record of type 1 and size 16, then a sample of size 48 with four words: a
  context marker and three addresses.
\<close>

definition example_page :: perf_event_mmap_page where
  "example_page =
     \<lparr>data_head = 64, data_tail = 0,
      data_bytes = le_bytes [0x0010000000000001, 0, 0x0030000000000009, 4,
                             0xFFFFFFFFFFFFFE00, 0x1000, 0x2000, 0x3000]\<rparr>"

definition example_env :: env where
  "example_env =
     \<lparr>PERF_PAGE_SIZE = 4096,
      read_file = (\<lambda>path. if path = ''/proc/sys/kernel/pid_max''
                           then Some [CHR ''1'', CHR ''6'', CHR 0x0A] else None),
      dlsym = (\<lambda>sym. if sym = ''foo'' then 0x400000 else 0),
      perf_event_open = (\<lambda>attr tid. if tid = 7 then 5 else - 1),
      mmap = (\<lambda>fd. Some example_page),
      read_counter = (\<lambda>fd. None),
      task_dir = Some [''.'', ''..'', ''7'']\<rparr>"

definition initial_state :: PerfEvents where
  "initial_state =
     \<lparr>max_events = 0, events = [], event_type = None, interval = 0,
      available_events = AVAILABLE_EVENTS 10000000, sigprof_handler = False,
      thread_start_mode = JVMTI_DISABLE, thread_end_mode = JVMTI_DISABLE, trace = []\<rparr>"

text \<open>A session on the event \<open>cpu\<close> with 16 slots, and a counter open for thread 7.\<close>

definition example_state :: PerfEvents where
  "example_state =
     \<lparr>max_events = 16,
      events = (replicate 16 zero_event)
                 [7 := \<lparr>locked = False, fd = 5, page = Some example_page\<rparr>],
      event_type = Some 0, interval = 10000000,
      available_events = AVAILABLE_EVENTS 10000000, sigprof_handler = True,
      thread_start_mode = JVMTI_ENABLE, thread_end_mode = JVMTI_ENABLE, trace = []\<rparr>"

definition example_ucontext :: ucontext where
  "example_ucontext = \<lparr>arg0 = 64, arg1 = 0, arg2 = 0, arg3 = 0\<rparr>"

text \<open>
  The states of that session after a first read of the buffer of thread 7, after the kernel
  has published one more sample, and after a second read.
\<close>

definition example_slot :: "perf_event_mmap_page \<Rightarrow> PerfEvent" where
  "example_slot p = \<lparr>locked = False, fd = 5, page = Some p\<rparr>"

definition example_state_read :: PerfEvents where
  "example_state_read =
     set_event example_state 7 (example_slot (example_page\<lparr>data_tail := 64\<rparr>))"

definition example_page_published :: perf_event_mmap_page where
  "example_page_published =
     \<lparr>data_head = 128, data_tail = 64,
      data_bytes = le_bytes [0x0010000000000001, 0, 0x0030000000000009, 4,
                             0xFFFFFFFFFFFFFE00, 0x1000, 0x2000, 0x3000,
                             0x0040000000000009, 1, 0x5000]\<rparr>"

definition example_state_published :: PerfEvents where
  "example_state_published = set_event example_state 7 (example_slot example_page_published)"

definition example_state_read_again :: PerfEvents where
  "example_state_read_again =
     set_event example_state 7 (example_slot (example_page_published\<lparr>data_tail := 128\<rparr>))"

section \<open>Properties\<close>

subsection \<open>The event catalog\<close>

lemmas kernel_consts =
  PERF_TYPE_HARDWARE_def PERF_TYPE_SOFTWARE_def PERF_TYPE_TRACEPOINT_def PERF_TYPE_HW_CACHE_def
  PERF_TYPE_BREAKPOINT_def HW_BREAKPOINT_R_def HW_BREAKPOINT_W_def HW_BREAKPOINT_RW_def
  HW_BREAKPOINT_X_def sizeof_long_def

lemma catalog_ok_initial: "catalog_ok (AVAILABLE_EVENTS d)"
  by (simp add: catalog_ok_def AVAILABLE_EVENTS_def event_def terminator_def)

lemma findByType_from_types:
  "map type t1 = map type t2 \<Longrightarrow> findByType_from t1 i t = findByType_from t2 i t"
proof (induction t1 arbitrary: t2 i)
  case Nil
  then show ?case by simp
next
  case (Cons e es)
  then obtain e' es' where t2: "t2 = e' # es'" "type e = type e'" "map type es = map type es'"
    by (cases t2) auto
  from Cons.IH [OF t2(3)] t2(1,2) show ?case by simp
qed

lemma find_predefined_names:
  "map name t1 = map name t2 \<Longrightarrow> find_predefined t1 i n = find_predefined t2 i n"
proof (induction t1 arbitrary: t2 i)
  case Nil
  then show ?case by simp
next
  case (Cons e es)
  then obtain e' es' where t2: "t2 = e' # es'" "name e = name e'" "map name es = map name es'"
    by (cases t2) auto
  from Cons.IH [OF t2(3)] t2(1,2) show ?case by (simp split: option.splits)
qed

lemma findByType_breakpoint:
  "catalog_ok tbl \<Longrightarrow> findByType tbl PERF_TYPE_BREAKPOINT = Inr 13"
  unfolding findByType_def catalog_ok_def
  by (subst findByType_from_types [of tbl "AVAILABLE_EVENTS 0"])
     (simp_all add: AVAILABLE_EVENTS_def event_def terminator_def kernel_consts)

lemma findByType_tracepoint:
  "catalog_ok tbl \<Longrightarrow> findByType tbl PERF_TYPE_TRACEPOINT = Inr 14"
  unfolding findByType_def catalog_ok_def
  by (subst findByType_from_types [of tbl "AVAILABLE_EVENTS 0"])
     (simp_all add: AVAILABLE_EVENTS_def event_def terminator_def kernel_consts)

lemma catalog_ok_length: "catalog_ok tbl \<Longrightarrow> length tbl = 16"
proof -
  assume "catalog_ok tbl"
  then have "length (map name tbl) = length (map name (AVAILABLE_EVENTS 0))"
    by (simp add: catalog_ok_def)
  then show ?thesis by (simp add: AVAILABLE_EVENTS_def)
qed

lemma map_update_same:
  "b < length xs \<Longrightarrow> f e = f (xs ! b) \<Longrightarrow> map f (xs[b := e]) = map f xs"
  by (simp add: map_update list_update_same_conv)

lemma catalog_ok_update:
  assumes "catalog_ok tbl" "name e = name (tbl ! b)" "type e = type (tbl ! b)" "b < length tbl"
  shows "catalog_ok (tbl[b := e])"
  using assms by (simp add: catalog_ok_def map_update_same)

lemma find_predefined_static:
  "catalog_ok tbl \<Longrightarrow> find_predefined tbl 0 n = find_predefined (AVAILABLE_EVENTS 0) 0 n"
  by (rule find_predefined_names) (simp add: catalog_ok_def)

lemma nth_of_map_eq:
  "map f xs = map f ys \<Longrightarrow> e < length xs \<Longrightarrow> f (xs ! e) = f (ys ! e)"
  by (metis length_map nth_map)

lemma name_static:
  "catalog_ok tbl \<Longrightarrow> e < 16 \<Longrightarrow> name (tbl ! e) = name (AVAILABLE_EVENTS 0 ! e)"
  by (rule nth_of_map_eq) (simp_all add: catalog_ok_def catalog_ok_length)

lemma type_static:
  "catalog_ok tbl \<Longrightarrow> e < 16 \<Longrightarrow> type (tbl ! e) = type (AVAILABLE_EVENTS 0 ! e)"
  by (rule nth_of_map_eq) (simp_all add: catalog_ok_def catalog_ok_length)

lemma listed_names:
  "catalog_ok tbl \<Longrightarrow> getAvailableEvents tbl = map name (AVAILABLE_EVENTS 0)"
  by (simp add: getAvailableEvents_def catalog_ok_def)

lemma predefined_resolves:
  assumes "catalog_ok tbl" "find_predefined (AVAILABLE_EVENTS 0) 0 n = Inr (Some e)"
    "take 4 n \<noteq> ''mem:''" "take 6 n \<noteq> ''trace:''"
  shows "forName env tbl n = Inr (Some e, tbl)"
  using assms by (simp add: forName_def find_predefined_static)

lemma static_names:
  "map name (AVAILABLE_EVENTS d) =
     [Some ''cpu'', Some ''page-faults'', Some ''context-switches'', Some ''cycles'',
      Some ''instructions'', Some ''cache-references'', Some ''cache-misses'',
      Some ''branches'', Some ''branch-misses'', Some ''bus-cycles'',
      Some ''L1-dcache-load-misses'', Some ''LLC-load-misses'', Some ''dTLB-load-misses'',
      Some ''mem:breakpoint'', Some ''trace:tracepoint'', None]"
  by (simp add: AVAILABLE_EVENTS_def event_def terminator_def)

lemma listed_cases:
  assumes "Some n \<in> set (map name (AVAILABLE_EVENTS 0))"
    "n \<noteq> ''mem:breakpoint''" "n \<noteq> ''trace:tracepoint''"
  shows "n \<in> {''cpu'', ''page-faults'', ''context-switches'', ''cycles'',
      ''instructions'', ''cache-references'', ''cache-misses'',
      ''branches'', ''branch-misses'', ''bus-cycles'',
      ''L1-dcache-load-misses'', ''LLC-load-misses'', ''dTLB-load-misses''}"
  using assms unfolding static_names by simp

lemma find_predefined_Some:
  "find_predefined tbl i n = Inr (Some e) \<Longrightarrow>
     i \<le> e \<and> e - i < length tbl \<and> name (tbl ! (e - i)) = Some n"
proof (induction tbl arbitrary: i)
  case Nil
  then show ?case by simp
next
  case (Cons a tbl)
  show ?case
  proof (cases "name a")
    case None
    with Cons.prems show ?thesis by simp
  next
    case (Some m)
    show ?thesis
    proof (cases "n = m")
      case True
      with Some Cons.prems show ?thesis by simp
    next
      case False
      with Some Cons.prems have "find_predefined tbl (Suc i) n = Inr (Some e)" by simp
      from Cons.IH [OF this] have "Suc i \<le> e" "e - Suc i < length tbl"
        "name (tbl ! (e - Suc i)) = Some n" by simp_all
      moreover from \<open>Suc i \<le> e\<close> have "e - i = Suc (e - Suc i)" by simp
      ultimately show ?thesis by simp
    qed
  qed
qed

lemma predefined_found:
  assumes "n \<in> {''cpu'', ''page-faults'', ''context-switches'', ''cycles'',
      ''instructions'', ''cache-references'', ''cache-misses'',
      ''branches'', ''branch-misses'', ''bus-cycles'',
      ''L1-dcache-load-misses'', ''LLC-load-misses'', ''dTLB-load-misses''}"
  shows "(\<exists>e. find_predefined (AVAILABLE_EVENTS 0) 0 n = Inr (Some e))
         \<and> take 4 n \<noteq> ''mem:'' \<and> take 6 n \<noteq> ''trace:''"
  using assms
  by (elim insertE emptyE) (simp_all add: AVAILABLE_EVENTS_def event_def terminator_def)

text \<open>The pointer that \<^verbatim>\<open>forName\<close> returns points into the table.\<close>

lemma findByType_from_index:
  "findByType_from tbl i t = Inr b \<Longrightarrow> i \<le> b \<and> b - i < length tbl"
proof (induction tbl arbitrary: i)
  case Nil
  then show ?case by simp
next
  case (Cons e es)
  show ?case
  proof (cases "type e = t")
    case True
    with Cons.prems show ?thesis by simp
  next
    case False
    with Cons.prems have "findByType_from es (Suc i) t = Inr b" by simp
    from Cons.IH [OF this] show ?thesis by auto
  qed
qed

lemma findByType_index: "findByType tbl t = Inr b \<Longrightarrow> b < length tbl"
  using findByType_from_index [of tbl 0 t b] by (simp add: findByType_def)

lemma getBreakpoint_index:
  assumes "getBreakpoint env tbl nm ty ln = Inr (Some e, tbl')"
  shows "e < length tbl'"
proof -
  obtain buf1 bpt len1 where a: "parse_access nm ty ln = (buf1, bpt, len1)"
    by (cases "parse_access nm ty ln")
  obtain buf2 bpl where l: "parse_length buf1 len1 = (buf2, bpl)"
    by (cases "parse_length buf1 len1")
  obtain buf off where f: "parse_offset buf2 = (buf, off)"
    by (cases "parse_offset buf2")
  from assms obtain b where "findByType tbl PERF_TYPE_BREAKPOINT = Inr b" "e = b"
    "length tbl' = length tbl"
    by (auto simp: getBreakpoint_def a l f Let_def split: if_splits sum.splits)
  with findByType_index show ?thesis by simp
qed

lemma getTracepoint_index:
  assumes "getTracepoint tbl tracepoint_id = Inr (Some e, tbl')"
  shows "e < length tbl'"
proof -
  from assms obtain b where "findByType tbl PERF_TYPE_TRACEPOINT = Inr b" "e = b"
    "length tbl' = length tbl"
    by (auto simp: getTracepoint_def split: sum.splits)
  with findByType_index show ?thesis by simp
qed

lemma forName_index:
  assumes "forName env tbl nm = Inr (Some e, tbl')"
  shows "e < length tbl'"
proof (cases "take 4 nm = ''mem:''")
  case True
  with assms show ?thesis by (simp add: forName_def getBreakpoint_index)
next
  case mem: False
  show ?thesis
  proof (cases "take 6 nm = ''trace:''")
    case True
    with mem assms show ?thesis
      by (auto simp: forName_def Let_def getTracepoint_index split: if_splits)
  next
    case trace: False
    show ?thesis
    proof (cases "find_predefined tbl 0 nm")
      case (Inl f)
      with mem trace assms show ?thesis by (simp add: forName_def)
    next
      case (Inr r)
      show ?thesis
      proof (cases r)
        case None
        with Inr mem trace assms show ?thesis
          by (auto simp: forName_def getTracepoint_index getBreakpoint_index split: if_splits)
      next
        case (Some i)
        with Inr mem trace assms have "e = i" "tbl' = tbl" by (simp_all add: forName_def)
        with find_predefined_Some [of tbl 0 nm i] Inr Some show ?thesis by simp
      qed
    qed
  qed
qed

text \<open>\<^verbatim>\<open>forName\<close> leaves the names and the types of the table as they are.\<close>

lemma getBreakpoint_keeps_catalog:
  assumes ok: "catalog_ok tbl" and r: "getBreakpoint env tbl nm ty ln = Inr (r, tbl')"
  shows "catalog_ok tbl'"
proof -
  obtain buf1 bpt len1 where a: "parse_access nm ty ln = (buf1, bpt, len1)"
    by (cases "parse_access nm ty ln")
  obtain buf2 bpl where l: "parse_length buf1 len1 = (buf2, bpl)"
    by (cases "parse_length buf1 len1")
  obtain buf off where f: "parse_offset buf2 = (buf, off)"
    by (cases "parse_offset buf2")
  have len: "13 < length tbl" using catalog_ok_length [OF ok] by simp
  from r consider "tbl' = tbl"
    | c t l g where "tbl' = tbl[13 := (tbl ! 13)\<lparr>config := c, bp_type := t, bp_len := l,
        counter_arg := g\<rparr>]"
    by (auto simp: getBreakpoint_def a l f Let_def findByType_breakpoint [OF ok]
        split: if_splits)
  then show ?thesis
  proof cases
    case 1
    with ok show ?thesis by simp
  next
    case 2
    with len show ?thesis by (simp add: catalog_ok_update [OF ok])
  qed
qed

lemma getTracepoint_keeps_catalog:
  assumes ok: "catalog_ok tbl" and r: "getTracepoint tbl tracepoint_id = Inr (r, tbl')"
  shows "catalog_ok tbl'"
proof -
  have len: "14 < length tbl" using catalog_ok_length [OF ok] by simp
  from r have "tbl' = tbl[14 := (tbl ! 14)\<lparr>config := word_of_int tracepoint_id\<rparr>]"
    by (simp add: getTracepoint_def findByType_tracepoint [OF ok])
  with len show ?thesis by (simp add: catalog_ok_update [OF ok])
qed

lemma forName_keeps_catalog:
  assumes ok: "catalog_ok tbl" and r: "forName env tbl nm = Inr (r, tbl')"
  shows "catalog_ok tbl'"
proof (cases "take 4 nm = ''mem:''")
  case True
  with r getBreakpoint_keeps_catalog [OF ok] show ?thesis by (simp add: forName_def)
next
  case mem: False
  show ?thesis
  proof (cases "take 6 nm = ''trace:''")
    case True
    with mem r ok getTracepoint_keeps_catalog [OF ok] show ?thesis
      by (auto simp: forName_def Let_def split: if_splits)
  next
    case trace: False
    show ?thesis
    proof (cases "find_predefined tbl 0 nm")
      case (Inl f)
      with mem trace r show ?thesis by (simp add: forName_def)
    next
      case (Inr found)
      with mem trace r ok getTracepoint_keeps_catalog [OF ok] getBreakpoint_keeps_catalog [OF ok]
      show ?thesis
        by (cases found) (auto simp: forName_def split: if_splits)
    qed
  qed
qed

text \<open>
  C3 (as amended). Every name that \<^verbatim>\<open>getAvailableEvents\<close> lists, other than the two
  entries \<open>mem:breakpoint\<close> and \<open>trace:tracepoint\<close> that hold the place of the breakpoint
  and tracepoint descriptors, resolves through \<^verbatim>\<open>forName\<close>: to its own entry of the
  table, which the call leaves as it is.
\<close>

theorem listed_predefined_names_resolve:
  assumes ok: "catalog_ok tbl"
    and listed: "Some n \<in> set (getAvailableEvents tbl)"
    and n: "n \<noteq> ''mem:breakpoint''" "n \<noteq> ''trace:tracepoint''"
  shows "\<exists>e. forName env tbl n = Inr (Some e, tbl) \<and> e < length tbl \<and> name (tbl ! e) = Some n"
proof -
  from listed ok have "Some n \<in> set (map name (AVAILABLE_EVENTS 0))"
    by (simp add: listed_names)
  from predefined_found [OF listed_cases [OF this n]]
  obtain e where e: "find_predefined (AVAILABLE_EVENTS 0) 0 n = Inr (Some e)"
    and pre: "take 4 n \<noteq> ''mem:''" "take 6 n \<noteq> ''trace:''"
    by blast
  from e ok have "find_predefined tbl 0 n = Inr (Some e)"
    by (simp add: find_predefined_static)
  from find_predefined_Some [OF this] have "e < length tbl" "name (tbl ! e) = Some n"
    by simp_all
  with predefined_resolves [OF ok e pre] show ?thesis by simp
qed

theorem listed_predefined_names_resolve_witness:
  "\<exists>e. forName example_env (AVAILABLE_EVENTS 1) ''cycles'' = Inr (Some e, AVAILABLE_EVENTS 1)
      \<and> e < length (AVAILABLE_EVENTS 1) \<and> name (AVAILABLE_EVENTS 1 ! e) = Some ''cycles''"
proof -
  have "Some ''cycles'' \<in> set (getAvailableEvents (AVAILABLE_EVENTS 1))"
    by (simp add: getAvailableEvents_def static_names)
  from listed_predefined_names_resolve [OF catalog_ok_initial this]
  show ?thesis by simp
qed

text \<open>
  C3 as stated fails: \<open>trace:tracepoint\<close> is listed, and \<^verbatim>\<open>forName\<close> returns \<open>NULL\<close>
  for it, since \<^verbatim>\<open>atoi("tracepoint")\<close> is 0.
\<close>

theorem listed_placeholder_unresolved:
  "Some ''trace:tracepoint'' \<in> set (getAvailableEvents (AVAILABLE_EVENTS 1))
   \<and> forName example_env (AVAILABLE_EVENTS 1) ''trace:tracepoint'' = Inr (None, AVAILABLE_EVENTS 1)"
  by (simp add: getAvailableEvents_def static_names forName_def atoi_def strtol_def
      isspace_def digit_value_def LONG_MAX_def)

lemmas strtol_eval = strtol_def strtoll_def isspace_def digit_value_def LONG_MAX_def LONG_MIN_def

lemma parse_write_spec:
  "parse_access ''foo+0x10/4:w'' t l = (''foo+0x10/4'', HW_BREAKPOINT_W, l)"
  "parse_length ''foo+0x10/4'' l = (''foo+0x10'', 4)"
  "parse_offset ''foo+0x10'' = (''foo'', 0x10)"
  "parse_access ''foo'' t l = (''foo'', t, l)"
  "parse_length ''foo'' l = (''foo'', l)"
  "parse_offset ''foo'' = (''foo'', 0)"
  by (simp_all add: parse_access_def parse_length_def parse_offset_def strtol_eval)

lemma breakpoint_entry:
  assumes ok: "catalog_ok tbl"
  shows "type (tbl[13 := (tbl ! 13)\<lparr>config := c, bp_type := t, bp_len := l, counter_arg := a\<rparr>] ! 13)
           = PERF_TYPE_BREAKPOINT"
  using type_static [OF ok, of 13] catalog_ok_length [OF ok]
  by (simp add: AVAILABLE_EVENTS_def event_def)

text \<open>
  C4. \<open>mem:foo+0x10/4:w\<close> resolves to the breakpoint descriptor with the address of
  \<open>foo\<close> plus \<open>0x10\<close>, length 4 and write access; the bare name \<open>foo\<close> resolves to an
  execution breakpoint at the address of \<open>foo\<close> with the width of a pointer as length.
  \<open>foo\<close> is a symbol that \<^verbatim>\<open>dlsym\<close> resolves.
\<close>

theorem breakpoint_spec_parsing:
  assumes ok: "catalog_ok tbl" and foo: "dlsym env ''foo'' \<noteq> 0"
  shows "(\<exists>b tbl'. forName env tbl ''mem:foo+0x10/4:w'' = Inr (Some b, tbl')
            \<and> type (tbl' ! b) = PERF_TYPE_BREAKPOINT
            \<and> config (tbl' ! b) = dlsym env ''foo'' + 0x10
            \<and> bp_len (tbl' ! b) = 4
            \<and> bp_type (tbl' ! b) = HW_BREAKPOINT_W)
       \<and> (\<exists>b tbl'. forName env tbl ''foo'' = Inr (Some b, tbl')
            \<and> type (tbl' ! b) = PERF_TYPE_BREAKPOINT
            \<and> config (tbl' ! b) = dlsym env ''foo''
            \<and> bp_len (tbl' ! b) = sizeof_long
            \<and> bp_type (tbl' ! b) = HW_BREAKPOINT_X)"
proof -
  have len: "13 < length tbl" using catalog_ok_length [OF ok] by simp
  have mem: "forName env tbl ''mem:foo+0x10/4:w''
        = Inr (Some 13, tbl[13 := (tbl ! 13)\<lparr>config := dlsym env ''foo'' + 0x10,
             bp_type := HW_BREAKPOINT_W, bp_len := 4, counter_arg := 0\<rparr>])"
    using foo
    by (simp add: forName_def getBreakpoint_def parse_write_spec findByType_breakpoint [OF ok]
        HW_BREAKPOINT_W_def HW_BREAKPOINT_X_def)
  have "find_predefined tbl 0 ''foo'' = Inr None"
    by (simp add: find_predefined_static [OF ok] AVAILABLE_EVENTS_def event_def terminator_def)
  then have bare: "forName env tbl ''foo''
        = Inr (Some 13, tbl[13 := (tbl ! 13)\<lparr>config := dlsym env ''foo'',
             bp_type := HW_BREAKPOINT_X, bp_len := sizeof_long, counter_arg := 0\<rparr>])"
    using foo
    by (simp add: forName_def getBreakpoint_def parse_write_spec findByType_breakpoint [OF ok]
        findCounterArg_def KNOWN_FUNCTIONS_def)
  show ?thesis
    unfolding mem bare using len breakpoint_entry [OF ok] by simp
qed

theorem breakpoint_spec_parsing_witness:
  "(\<exists>b tbl'. forName example_env (AVAILABLE_EVENTS 1) ''mem:foo+0x10/4:w'' = Inr (Some b, tbl')
            \<and> type (tbl' ! b) = PERF_TYPE_BREAKPOINT
            \<and> config (tbl' ! b) = 0x400010
            \<and> bp_len (tbl' ! b) = 4
            \<and> bp_type (tbl' ! b) = HW_BREAKPOINT_W)
       \<and> (\<exists>b tbl'. forName example_env (AVAILABLE_EVENTS 1) ''foo'' = Inr (Some b, tbl')
            \<and> type (tbl' ! b) = PERF_TYPE_BREAKPOINT
            \<and> config (tbl' ! b) = 0x400000
            \<and> bp_len (tbl' ! b) = 8
            \<and> bp_type (tbl' ! b) = HW_BREAKPOINT_X)"
proof -
  have foo: "dlsym example_env ''foo'' \<noteq> 0" by (simp add: example_env_def)
  have v: "dlsym example_env ''foo'' = 0x400000" by (simp add: example_env_def)
  from breakpoint_spec_parsing [OF catalog_ok_initial foo, of 1]
  show ?thesis unfolding v by (simp add: sizeof_long_def)
qed

lemma parse_access_unknown:
  assumes "strrchr spec (CHR '':'') = Some i" "drop (Suc i) spec \<notin> {''r'', ''w'', ''x''}"
  shows "parse_access spec ty ln = (take i spec, HW_BREAKPOINT_RW, ln)"
  using assms by (simp add: parse_access_def)

text \<open>
  C10. A breakpoint specification (shorter than the 256 characters of the buffer) whose part
  after the last colon is not \<open>r\<close>, \<open>w\<close> or \<open>x\<close> is not refused: the access type is
  \<^verbatim>\<open>HW_BREAKPOINT_RW\<close>, and the result is \<open>NULL\<close> only when the symbol before the
  suffixes does not resolve.
\<close>

theorem unknown_access_defaults_to_read_write:
  assumes ok: "catalog_ok tbl" and len: "length spec < 256"
    and colon: "strrchr spec (CHR '':'') = Some i"
    and suffix: "drop (Suc i) spec \<notin> {''r'', ''w'', ''x''}"
  shows "let sym = fst (parse_offset (fst (parse_length (take i spec) ln))) in
         if take 2 sym \<noteq> ''0x'' \<and> dlsym env sym = 0
         then getBreakpoint env tbl spec ty ln = Inr (None, tbl)
         else (\<exists>b tbl'. getBreakpoint env tbl spec ty ln = Inr (Some b, tbl')
                \<and> type (tbl' ! b) = PERF_TYPE_BREAKPOINT
                \<and> bp_type (tbl' ! b) = HW_BREAKPOINT_RW)"
proof -
  have l13: "13 < length tbl" using catalog_ok_length [OF ok] by simp
  obtain buf2 bpl where pl: "parse_length (take i spec) ln = (buf2, bpl)"
    by (cases "parse_length (take i spec) ln")
  obtain sym off where po: "parse_offset buf2 = (sym, off)"
    by (cases "parse_offset buf2")
  show ?thesis
    using len l13 breakpoint_entry [OF ok]
    by (simp add: getBreakpoint_def parse_access_unknown [OF colon suffix] pl po
        findByType_breakpoint [OF ok] Let_def)
qed

theorem unknown_access_defaults_to_read_write_witness:
  "\<exists>b tbl'. forName example_env (AVAILABLE_EVENTS 1) ''mem:foo:rw'' = Inr (Some b, tbl')
      \<and> type (tbl' ! b) = PERF_TYPE_BREAKPOINT \<and> bp_type (tbl' ! b) = HW_BREAKPOINT_RW"
proof -
  have colon: "strrchr ''foo:rw'' (CHR '':'') = Some 3" by simp
  have suffix: "drop (Suc 3) ''foo:rw'' \<notin> {''r'', ''w'', ''x''}" by simp
  have len: "length ''foo:rw'' < 256" by simp
  have sym: "fst (parse_offset (fst (parse_length (take 3 ''foo:rw'') 1))) = ''foo''"
    by (simp add: parse_length_def parse_offset_def)
  have mem: "forName example_env (AVAILABLE_EVENTS 1) ''mem:foo:rw''
      = getBreakpoint example_env (AVAILABLE_EVENTS 1) ''foo:rw'' HW_BREAKPOINT_RW 1"
    by (simp add: forName_def)
  from unknown_access_defaults_to_read_write [OF catalog_ok_initial [of 1] len colon suffix,
      where ln = 1 and env = example_env and ty = HW_BREAKPOINT_RW]
  show ?thesis unfolding mem Let_def sym by (simp add: example_env_def)
qed

subsection \<open>Counters per thread, the signal handler and the start of a session\<close>

lemma emit_fields [simp]:
  "events (emit es s) = events s" "max_events (emit es s) = max_events s"
  "event_type (emit es s) = event_type s" "available_events (emit es s) = available_events s"
  "interval (emit es s) = interval s" "sigprof_handler (emit es s) = sigprof_handler s"
  "trace (emit es s) = trace s @ es"
  by (simp_all add: emit_def)

lemma event_at_emit [simp]: "event_at (emit es s) tid = event_at s tid"
  by (simp add: event_at_def)

lemma set_event_fields [simp]:
  "max_events (set_event s tid ev) = max_events s"
  "length (events (set_event s tid ev)) = length (events s)"
  "trace (set_event s tid ev) = trace s"
  "event_type (set_event s tid ev) = event_type s"
  "available_events (set_event s tid ev) = available_events s"
  by (simp_all add: set_event_def)

lemma event_at_set_event:
  "event_at s tid = Some old \<Longrightarrow> event_at (set_event s tid ev) tid = Some ev"
  by (auto simp: event_at_def set_event_def split: if_splits)

lemma set_event_same:
  "event_at s tid = Some ev \<Longrightarrow> set_event s tid ev = s"
  by (auto simp: event_at_def set_event_def split: if_splits)

lemma set_event_twice [simp]:
  "set_event (set_event s tid a) tid b = set_event s tid b"
  by (simp add: set_event_def)

lemma event_at_beyond:
  "length (events s) = nat (max_events s) \<Longrightarrow> max_events s \<le> tid \<Longrightarrow> event_at s tid = None"
  by (auto simp: event_at_def)

lemma event_at_within:
  "length (events s) = nat (max_events s) \<Longrightarrow> 0 \<le> tid \<Longrightarrow> tid < max_events s \<Longrightarrow>
   event_at s tid = Some (events s ! nat tid)"
  by (auto simp: event_at_def)

text \<open>
  C6. A thread id at or beyond the capacity \<^verbatim>\<open>_max_events\<close>: \<^verbatim>\<open>createForThread\<close>
  returns \<open>false\<close>; it writes the warning and changes nothing else, no slot in particular.
  \<^verbatim>\<open>destroyForThread\<close> returns with the state as it was.
\<close>

theorem tid_beyond_capacity_is_skipped:
  assumes "max_events s \<le> tid"
  shows "\<exists>s'. createForThread env s tid = Inr (False, s')
           \<and> s' = s\<lparr>trace := trace s @ [Warning tid (max_events s)]\<rparr>
           \<and> events s' = events s
           \<and> destroyForThread s tid = Inr s"
  using assms by (simp add: createForThread_def destroyForThread_def emit_def)

theorem tid_beyond_capacity_is_skipped_witness:
  "\<exists>s'. createForThread example_env example_state 16 = Inr (False, s')
           \<and> s' = example_state\<lparr>trace := trace example_state @ [Warning 16 (max_events example_state)]\<rparr>
           \<and> events s' = events example_state
           \<and> destroyForThread example_state 16 = Inr example_state"
proof -
  have "max_events example_state \<le> 16" by (simp add: example_state_def)
  from tid_beyond_capacity_is_skipped [OF this] show ?thesis .
qed

text \<open>
  C8. A signal whose \<^verbatim>\<open>si_code\<close> is 0 or negative was sent by a user or a process.
  The handler returns at once: the state is as before, and so is the trace, to which a read
  of the counter, a sample handed to the profiler or a reset and refresh of the counter
  would have added.
\<close>

theorem sent_signal_is_ignored:
  assumes "si_code info \<le> 0"
  shows "signalHandler env s signo info uc = Inr s"
  using assms by (simp add: signalHandler_def)

theorem sent_signal_is_ignored_witness:
  "signalHandler example_env example_state 27 \<lparr>si_code = 0, si_fd = 5\<rparr> example_ucontext
     = Inr example_state"
proof -
  have "si_code \<lparr>si_code = 0, si_fd = 5\<rparr> \<le> 0" by simp
  from sent_signal_is_ignored [OF this] show ?thesis .
qed

text \<open>
  A signal of the kernel, in a session, is a sample: the handler hands it over with its
  weight and arms the counter again.
\<close>

lemma overflow_signal_is_sampled:
  assumes "0 < si_code info" "session_ok s"
  shows "\<exists>reads counter. signalHandler env s signo info uc
           = Inr (emit (reads @ [RecordSample uc counter,
                    Ioctl (si_fd info) PERF_EVENT_IOC_RESET 0,
                    Ioctl (si_fd info) PERF_EVENT_IOC_REFRESH 1]) s)"
proof -
  from assms(2) obtain e where e: "event_type s = Some e" "e < length (available_events s)"
    by (auto simp: session_ok_def split: option.splits)
  define arg where "arg = counter_arg (available_events s ! e)"
  define counter where "counter = (if arg = 1 then arg0 uc
                               else if arg = 2 then arg1 uc
                               else if arg = 3 then arg2 uc
                               else if arg = 4 then arg3 uc
                               else (case read_counter env (si_fd info) of
                                       Some v \<Rightarrow> v
                                     | None \<Rightarrow> 1))"
  define reads where "reads = (if arg = 1 \<or> arg = 2 \<or> arg = 3 \<or> arg = 4 then []
                             else [Read_counter (si_fd info)])"
  from assms(1) e have "signalHandler env s signo info uc
           = Inr (emit (reads @ [RecordSample uc counter,
                    Ioctl (si_fd info) PERF_EVENT_IOC_RESET 0,
                    Ioctl (si_fd info) PERF_EVENT_IOC_REFRESH 1]) s)"
    unfolding signalHandler_def Let_def arg_def counter_def reads_def by simp
  then show ?thesis by blast
qed

text \<open>
  C9. \<^verbatim>\<open>getCallChain\<close> takes \<^verbatim>\<open>&_events[tid]\<close> without comparing \<open>tid\<close> with the
  capacity: whenever \<open>tid\<close> is no index of the array, the access is out of bounds. For an
  array of \<^verbatim>\<open>_max_events\<close> slots that is so for every \<open>tid\<close> at or beyond the capacity,
  which \<^verbatim>\<open>createForThread\<close> and \<^verbatim>\<open>destroyForThread\<close> turn away.
\<close>

theorem getCallChain_has_no_capacity_check:
  "(event_at s tid = None \<longrightarrow>
      getCallChain env s uc tid max_depth jit_min_address jit_max_address = Inl OutOfBounds)
   \<and> (length (events s) = nat (max_events s) \<and> max_events s \<le> tid \<longrightarrow>
        event_at s tid = None
        \<and> (\<exists>s'. createForThread env s tid = Inr (False, s'))
        \<and> destroyForThread s tid = Inr s)"
  by (simp add: getCallChain_def event_at_beyond createForThread_def destroyForThread_def)

theorem getCallChain_has_no_capacity_check_witness:
  "getCallChain example_env example_state example_ucontext 16 8 0 0 = Inl OutOfBounds
   \<and> event_at example_state 16 = None
   \<and> (\<exists>s'. createForThread example_env example_state 16 = Inr (False, s'))
   \<and> destroyForThread example_state 16 = Inr example_state"
proof -
  have a: "length (events example_state) = nat (max_events example_state)"
    and b: "max_events example_state \<le> 16"
    by (simp_all add: example_state_def)
  have c: "event_at example_state 16 = None" by (rule event_at_beyond [OF a b])
  from getCallChain_has_no_capacity_check [of example_state 16 example_env example_ucontext 8 0 0]
    a b c
  show ?thesis by simp
qed

lemma destroy_clears_slot:
  assumes tid: "tid < max_events s" and ev: "event_at s tid = Some ev"
    and free: "page ev = None \<or> \<not> locked ev"
  shows "\<exists>s'. destroyForThread s tid = Inr s'
           \<and> event_at s' tid = Some (ev\<lparr>fd := 0, page := None\<rparr>)
           \<and> max_events s' = max_events s"
proof (cases "fd ev = 0")
  case True
  then have same: "ev\<lparr>fd := 0\<rparr> = ev" by simp
  show ?thesis
  proof (cases "page ev")
    case None
    then have "ev\<lparr>fd := 0, page := None\<rparr> = ev" using True by simp
    with tid ev True None show ?thesis by (simp add: destroyForThread_def)
  next
    case (Some p)
    with free have "\<not> locked ev" by simp
    with tid ev True Some show ?thesis
      by (simp add: destroyForThread_def event_at_set_event)
  qed
next
  case False
  show ?thesis
  proof (cases "page ev")
    case None
    with tid ev False show ?thesis
      by (simp add: destroyForThread_def event_at_set_event)
  next
    case (Some p)
    with free have "\<not> locked ev" by simp
    with tid ev False Some show ?thesis
      by (simp add: destroyForThread_def event_at_set_event)
  qed
qed

lemma destroy_cleared_slot:
  assumes "event_at s tid = Some ev" "fd ev = 0" "page ev = None"
  shows "destroyForThread s tid = Inr s"
  using assms by (simp add: destroyForThread_def)

lemma create_outcome:
  assumes ok: "session_ok s" and tid: "0 \<le> tid" "tid < max_events s"
  shows "\<exists>created s1 ev. createForThread env s tid = Inr (created, s1)
           \<and> max_events s1 = max_events s
           \<and> event_at s1 tid = Some ev \<and> \<not> locked ev"
proof -
  from ok have len: "length (events s) = nat (max_events s)"
    and unlocked: "list_all (\<lambda>ev. \<not> locked ev) (events s)"
    by (simp_all add: session_ok_def unlocked_def)
  from ok obtain e where e: "event_type s = Some e" "e < length (available_events s)"
    by (auto simp: session_ok_def split: option.splits)
  from event_at_within [OF len tid] have at: "event_at s tid = Some (events s ! nat tid)" .
  from tid len unlocked have free: "\<not> locked (events s ! nat tid)"
    by (simp add: list_all_length)
  show ?thesis
  proof (cases "perf_event_open env (make_attr (available_events s ! e) (interval s)) tid = - 1")
    case True
    with tid e at free show ?thesis by (auto simp: createForThread_def Let_def)
  next
    case False
    with tid e at free show ?thesis
      by (auto simp: createForThread_def Let_def event_at_set_event)
  qed
qed

text \<open>
  C5. In a session, for a thread id from 0 below the capacity: after \<^verbatim>\<open>createForThread\<close>,
  whether it opened a counter or not, \<^verbatim>\<open>destroyForThread\<close> returns and leaves the slot
  with handle 0 and no buffer; \<^verbatim>\<open>destroyForThread\<close> once more returns the very same
  state.
\<close>

theorem create_then_destroy_clears_slot:
  assumes ok: "session_ok s" and tid: "0 \<le> tid" "tid < max_events s"
  shows "\<exists>created s1 s2 ev. createForThread env s tid = Inr (created, s1)
           \<and> destroyForThread s1 tid = Inr s2
           \<and> event_at s2 tid = Some ev \<and> fd ev = 0 \<and> page ev = None
           \<and> destroyForThread s2 tid = Inr s2"
proof -
  from create_outcome [OF ok tid, of env]
  obtain created s1 ev where c: "createForThread env s tid = Inr (created, s1)"
    and m: "max_events s1 = max_events s"
    and ev: "event_at s1 tid = Some ev" "\<not> locked ev"
    by blast
  from tid m have "tid < max_events s1" by simp
  from destroy_clears_slot [OF this ev(1)] ev(2)
  obtain s2 where d: "destroyForThread s1 tid = Inr s2"
    and ev2: "event_at s2 tid = Some (ev\<lparr>fd := 0, page := None\<rparr>)"
    by blast
  from destroy_cleared_slot [OF ev2] have "destroyForThread s2 tid = Inr s2" by simp
  with c d ev2 show ?thesis by simp
qed

lemma example_session: "session_ok example_state"
  by (simp add: session_ok_def unlocked_def example_state_def AVAILABLE_EVENTS_def zero_event_def
      list_all_length nth_list_update)

theorem create_then_destroy_clears_slot_witness:
  "\<exists>created s1 s2 ev. createForThread example_env example_state 7 = Inr (created, s1)
           \<and> destroyForThread s1 7 = Inr s2
           \<and> event_at s2 7 = Some ev \<and> fd ev = 0 \<and> page ev = None
           \<and> destroyForThread s2 7 = Inr s2"
proof -
  have "(0::int) \<le> 7" "7 < max_events example_state" by (simp_all add: example_state_def)
  from create_then_destroy_clears_slot [OF example_session this] show ?thesis .
qed

text \<open>
  C2. When \<^verbatim>\<open>forName\<close> returns \<open>NULL\<close> or the interval is negative, \<^verbatim>\<open>start\<close>
  returns an error and has done nothing but assign \<^verbatim>\<open>_event_type\<close> (and what
  \<^verbatim>\<open>forName\<close> wrote into the table): the slots, the capacity, the handler of the
  signal, the notification modes, the interval and the trace of calls are as before, so no
  counter was opened.
\<close>

theorem failed_start_opens_nothing:
  assumes "forName env (available_events s) ev = Inr (et, tbl)" "et = None \<or> ival < 0"
  shows "\<exists>msg s'. start env s ev ival = Inr (Error msg, s')
           \<and> s' = s\<lparr>available_events := tbl, event_type := et\<rparr>
           \<and> events s' = events s \<and> max_events s' = max_events s
           \<and> sigprof_handler s' = sigprof_handler s
           \<and> thread_start_mode s' = thread_start_mode s
           \<and> thread_end_mode s' = thread_end_mode s
           \<and> interval s' = interval s
           \<and> trace s' = trace s"
proof (cases et)
  case None
  with assms(1) show ?thesis by (simp add: start_def)
next
  case (Some e)
  with assms(2) have "ival < 0" by simp
  with assms(1) Some show ?thesis by (simp add: start_def)
qed

lemma no_such_event:
  "forName example_env (available_events initial_state) ''nosuch''
     = Inr (None, available_events initial_state)"
  by (simp add: forName_def initial_state_def find_predefined_static [OF catalog_ok_initial]
      AVAILABLE_EVENTS_def event_def terminator_def getBreakpoint_def parse_access_def
      parse_length_def parse_offset_def example_env_def)

lemma cpu_event:
  "forName example_env (available_events initial_state) ''cpu''
     = Inr (Some 0, available_events initial_state)"
  by (simp add: forName_def initial_state_def find_predefined_static [OF catalog_ok_initial]
      AVAILABLE_EVENTS_def event_def terminator_def)

theorem failed_start_opens_nothing_witness:
  "(\<exists>msg s'. start example_env initial_state ''nosuch'' 0 = Inr (Error msg, s')
       \<and> events s' = events initial_state \<and> sigprof_handler s' = sigprof_handler initial_state
       \<and> trace s' = trace initial_state)
   \<and> (\<exists>msg s'. start example_env initial_state ''cpu'' (- 1) = Inr (Error msg, s')
       \<and> events s' = events initial_state \<and> sigprof_handler s' = sigprof_handler initial_state
       \<and> trace s' = trace initial_state)"
proof -
  from failed_start_opens_nothing [OF no_such_event, of 0]
  have a: "\<exists>msg s'. start example_env initial_state ''nosuch'' 0 = Inr (Error msg, s')
       \<and> events s' = events initial_state \<and> sigprof_handler s' = sigprof_handler initial_state
       \<and> trace s' = trace initial_state"
    by auto
  from failed_start_opens_nothing [OF cpu_event, of "- 1"]
  have b: "\<exists>msg s'. start example_env initial_state ''cpu'' (- 1) = Inr (Error msg, s')
       \<and> events s' = events initial_state \<and> sigprof_handler s' = sigprof_handler initial_state
       \<and> trace s' = trace initial_state"
    by auto
  from a b show ?thesis by simp
qed

text \<open>
  A successful \<^verbatim>\<open>start\<close> sets up a session: the array has the capacity, a descriptor is
  selected, and every guard is free if it was before.
\<close>

lemma list_all_update:
  "list_all P xs \<Longrightarrow> P x \<Longrightarrow> list_all P (xs[i := x])"
  by (cases "i < length xs") (auto simp: list_all_length nth_list_update)

lemma createForThread_keeps:
  assumes "createForThread env s tid = Inr (created, s')"
  shows "length (events s') = length (events s) \<and> max_events s' = max_events s
       \<and> event_type s' = event_type s \<and> available_events s' = available_events s
       \<and> (unlocked s \<longrightarrow> unlocked s')"
proof (cases "max_events s \<le> tid")
  case True
  with assms show ?thesis by (auto simp: createForThread_def unlocked_def)
next
  case False
  with assms obtain e where e: "event_type s = Some e" "e < length (available_events s)"
    by (auto simp: createForThread_def split: option.splits if_splits)
  show ?thesis
  proof (cases "perf_event_open env (make_attr (available_events s ! e) (interval s)) tid = - 1")
    case True
    with False e assms show ?thesis by (auto simp: createForThread_def Let_def unlocked_def)
  next
    case opened: False
    with False e assms show ?thesis
      by (auto simp: createForThread_def Let_def unlocked_def set_event_def list_all_update
          split: if_splits)
  qed
qed

lemma createForEntries_keeps:
  assumes "createForEntries env entries success s = Inr (created, s')"
  shows "length (events s') = length (events s) \<and> max_events s' = max_events s
       \<and> event_type s' = event_type s \<and> available_events s' = available_events s
       \<and> (unlocked s \<longrightarrow> unlocked s')"
  using assms
proof (induction entries arbitrary: success s)
  case Nil
  then show ?case by simp
next
  case (Cons d_name entries)
  show ?case
  proof (cases "take 1 d_name = ''.''")
    case True
    with Cons.prems have "createForEntries env entries success s = Inr (created, s')" by simp
    from Cons.IH [OF this] show ?thesis .
  next
    case False
    with Cons.prems obtain ok s1 where c: "createForThread env s (atoi d_name) = Inr (ok, s1)"
      and rest: "createForEntries env entries (success \<or> ok) s1 = Inr (created, s')"
      by (auto split: sum.splits)
    from createForThread_keeps [OF c] Cons.IH [OF rest] show ?thesis by simp
  qed
qed

lemma start_establishes_session:
  assumes started: "start env s ev ival = Inr (OK, s')"
    and before: "length (events s) = nat (max_events s)" "unlocked s"
  shows "session_ok s'"
proof -
  from started obtain e tbl where f: "forName env (available_events s) ev = Inr (Some e, tbl)"
    by (auto simp: start_def Let_def split: sum.splits option.splits if_splits)
  define s2 where "s2 = s\<lparr>available_events := tbl, event_type := Some e,
      interval := (if ival \<noteq> 0 then ival else default_interval (tbl ! e))\<rparr>"
  define s5 where "s5 = (installSignalHandler
      (if getMaxPID env \<noteq> max_events s2
       then s2\<lparr>events := replicate (nat (getMaxPID env)) zero_event, max_events := getMaxPID env\<rparr>
       else s2))\<lparr>thread_start_mode := JVMTI_ENABLE, thread_end_mode := JVMTI_ENABLE\<rparr>"
  from started f have c: "createForAllThreads env s5 = Inr (True, s')"
    by (auto simp: start_def Let_def s2_def s5_def split: sum.splits if_splits)
  from before have s5: "length (events s5) = nat (max_events s5)" "unlocked s5"
    "event_type s5 = Some e" "available_events s5 = tbl"
    by (simp_all add: s5_def s2_def installSignalHandler_def unlocked_def zero_event_def
        list_all_length)
  have keeps: "length (events s') = length (events s5) \<and> max_events s' = max_events s5
       \<and> event_type s' = event_type s5 \<and> available_events s' = available_events s5
       \<and> (unlocked s5 \<longrightarrow> unlocked s')"
  proof (cases "task_dir env")
    case None
    with c show ?thesis by (simp add: createForAllThreads_def)
  next
    case (Some entries)
    with c have "createForEntries env entries False s5 = Inr (True, s')"
      by (simp add: createForAllThreads_def)
    then show ?thesis by (rule createForEntries_keeps)
  qed
  with s5 forName_index [OF f] show ?thesis by (simp add: session_ok_def unlocked_def)
qed

text \<open>The concrete session is the one \<^verbatim>\<open>start\<close> sets up in the concrete environment.\<close>

lemma example_pid_max: "getMaxPID example_env = 16"
  by (simp add: getMaxPID_def example_env_def read_over_def c_str_def NUL_def atoi_def
      strtol_def isspace_def digit_value_def LONG_MAX_def)

lemma atoi_7: "atoi ''7'' = 7"
  by (simp add: atoi_def strtol_def isspace_def digit_value_def LONG_MAX_def)

lemma successful_start:
  "\<exists>s'. start example_env initial_state ''cpu'' 0 = Inr (OK, s')
      \<and> s'\<lparr>trace := []\<rparr> = example_state"
  apply (simp add: start_def cpu_event example_pid_max Let_def)
  apply (simp add: initial_state_def installSignalHandler_def createForAllThreads_def example_env_def
     atoi_7 createForThread_def Let_def event_at_def emit_def set_event_def AVAILABLE_EVENTS_def example_state_def
     event_def)
  done

subsection \<open>The ring buffer\<close>

lemma call_chain_of_Nil [simp]: "call_chain_of md lo hi [] = []"
  by (simp add: call_chain_of_def)

lemma call_chain_of_full: "md \<le> 0 \<Longrightarrow> call_chain_of md lo hi ips = []"
  by (simp add: call_chain_of_def)

lemma call_chain_of_marker:
  "\<not> ip < PERF_CONTEXT_MAX \<Longrightarrow> call_chain_of md lo hi (ip # ips) = call_chain_of md lo hi ips"
  by (simp add: call_chain_of_def)

lemma call_chain_of_stop:
  "ip < PERF_CONTEXT_MAX \<Longrightarrow> lo \<le> ip \<and> ip < hi \<Longrightarrow> call_chain_of md lo hi (ip # ips) = []"
  by (simp add: call_chain_of_def)

lemma call_chain_of_keep:
  assumes "ip < PERF_CONTEXT_MAX" "\<not> (lo \<le> ip \<and> ip < hi)" "0 < md"
  shows "call_chain_of md lo hi (ip # ips) = ip # call_chain_of (md - 1) lo hi ips"
proof -
  from \<open>0 < md\<close> have "nat md = Suc (nat (md - 1))" by simp
  with assms(1,2) show ?thesis by (simp add: call_chain_of_def)
qed

lemma length_call_chain_of: "int (length (call_chain_of md lo hi ips)) \<le> max md 0"
  by (simp add: call_chain_of_def)

lemma set_call_chain_of:
  assumes "a \<in> set (call_chain_of md lo hi ips)"
  shows "\<not> (lo \<le> a \<and> a < hi)" and "a < PERF_CONTEXT_MAX"
proof -
  from assms have a: "a \<in> set (takeWhile (\<lambda>ip. \<not> (lo \<le> ip \<and> ip < hi))
      (filter (\<lambda>ip. ip < PERF_CONTEXT_MAX) ips))"
    unfolding call_chain_of_def by (rule in_set_takeD)
  from set_takeWhileD [OF a] show "\<not> (lo \<le> a \<and> a < hi)" and "a < PERF_CONTEXT_MAX"
    by simp_all
qed

lemma ips_from_step:
  "0 < nr \<Longrightarrow> ips_from env m off (unat nr)
     = next_value env m off # ips_from env m (next_offset env off) (unat (nr - 1))"
proof -
  assume "0 < nr"
  then have "unat nr = Suc (unat (nr - 1))"
    by (simp add: unat_minus_one word_greater_zero_iff unat_gt_0)
  then show ?thesis by simp
qed

lemma read_ips_stop:
  "\<not> (0 < nr \<and> depth < md) \<Longrightarrow> read_ips env m off nr depth chain md lo hi = (depth, chain)"
  by (subst read_ips.simps) (simp only: if_False)

lemma read_ips_marker:
  "0 < nr \<and> depth < md \<Longrightarrow> \<not> next_value env m off < PERF_CONTEXT_MAX \<Longrightarrow>
   read_ips env m off nr depth chain md lo hi
     = read_ips env m (next_offset env off) (nr - 1) depth chain md lo hi"
  by (subst read_ips.simps) (simp add: Let_def)

lemma read_ips_inside:
  "0 < nr \<and> depth < md \<Longrightarrow> next_value env m off < PERF_CONTEXT_MAX \<Longrightarrow>
   lo \<le> next_value env m off \<and> next_value env m off < hi \<Longrightarrow>
   read_ips env m off nr depth chain md lo hi = (depth, chain)"
  by (subst read_ips.simps) (simp add: Let_def)

lemma read_ips_outside:
  "0 < nr \<and> depth < md \<Longrightarrow> next_value env m off < PERF_CONTEXT_MAX \<Longrightarrow>
   \<not> (lo \<le> next_value env m off \<and> next_value env m off < hi) \<Longrightarrow>
   read_ips env m off nr depth chain md lo hi
     = read_ips env m (next_offset env off) (nr - 1) (depth + 1)
         (chain @ [next_value env m off]) md lo hi"
  by (subst read_ips.simps) (auto simp: Let_def)

lemma read_ips_chain:
  "read_ips env m off nr depth chain md lo hi =
     (depth + int (length (call_chain_of (md - depth) lo hi (ips_from env m off (unat nr)))),
      chain @ call_chain_of (md - depth) lo hi (ips_from env m off (unat nr)))"
proof (induction env m off nr depth chain md lo hi rule: read_ips.induct)
  case (1 env m off nr depth chain md lo hi)
  let ?ip = "next_value env m off"
  show ?case
  proof (cases "0 < nr \<and> depth < md")
    case False
    then have "nr = 0 \<or> md - depth \<le> 0" by (auto simp: word_greater_zero_iff)
    then have "call_chain_of (md - depth) lo hi (ips_from env m off (unat nr)) = []"
      by (auto simp: call_chain_of_full)
    with read_ips_stop [OF False] show ?thesis by simp
  next
    case True
    then have pos: "0 < md - depth" and ips: "ips_from env m off (unat nr)
        = ?ip # ips_from env m (next_offset env off) (unat (nr - 1))"
      by (simp_all add: ips_from_step)
    show ?thesis
    proof (cases "?ip < PERF_CONTEXT_MAX")
      case marker: False
      from "1.IH"(2) [OF True refl marker] show ?thesis
        by (simp add: read_ips_marker [OF True marker] ips call_chain_of_marker [OF marker])
    next
      case address: True
      show ?thesis
      proof (cases "lo \<le> ?ip \<and> ?ip < hi")
        case inside: True
        show ?thesis
          by (simp add: read_ips_inside [OF True address inside] ips
              call_chain_of_stop [OF address inside])
      next
        case outside: False
        have "md - (depth + 1) = md - depth - 1" by simp
        with "1.IH"(1) [OF True refl address outside] show ?thesis
          by (simp add: read_ips_outside [OF True address outside] ips
              call_chain_of_keep [OF address outside pos])
      qed
    qed
  qed
qed

lemma scan_result:
  assumes "scan env m tail head md lo hi = Some r"
  shows "r = (0, []) \<or>
         (\<exists>t. t < head \<and> hdr_type m (seek env t) = PERF_RECORD_SAMPLE
              \<and> r = read_ips env m (next_offset env (seek env t)) (next_value env m (seek env t))
                      0 [] md lo hi)"
proof (rule scan.raw_induct [where P = "\<lambda>env m tail head md lo hi r. r = (0, []) \<or>
         (\<exists>t. t < head \<and> hdr_type m (seek env t) = PERF_RECORD_SAMPLE
              \<and> r = read_ips env m (next_offset env (seek env t)) (next_value env m (seek env t))
                      0 [] md lo hi)", OF _ assms])
  fix scan' :: "env \<Rightarrow> (nat \<Rightarrow> 8 word) \<Rightarrow> u64 \<Rightarrow> u64 \<Rightarrow> int \<Rightarrow> u64 \<Rightarrow> u64 \<Rightarrow> (int \<times> u64 list) option"
  fix env m tail head md lo hi r
  assume IH: "\<And>env m tail head md lo hi r. scan' env m tail head md lo hi = Some r \<Longrightarrow>
     r = (0, []) \<or>
         (\<exists>t. t < head \<and> hdr_type m (seek env t) = PERF_RECORD_SAMPLE
              \<and> r = read_ips env m (next_offset env (seek env t)) (next_value env m (seek env t))
                      0 [] md lo hi)"
  assume step: "(if tail < head
      then if hdr_type m (seek env tail) = PERF_RECORD_SAMPLE
           then Some (read_ips env m (next_offset env (seek env tail))
                   (next_value env m (seek env tail)) 0 [] md lo hi)
           else scan' env m (tail + ucast (hdr_size m (seek env tail))) head md lo hi
      else Some (0, [])) = Some r"
  show "r = (0, []) \<or>
         (\<exists>t. t < head \<and> hdr_type m (seek env t) = PERF_RECORD_SAMPLE
              \<and> r = read_ips env m (next_offset env (seek env t)) (next_value env m (seek env t))
                      0 [] md lo hi)"
  proof (cases "tail < head")
    case False
    with step show ?thesis by simp
  next
    case True
    show ?thesis
    proof (cases "hdr_type m (seek env tail) = PERF_RECORD_SAMPLE")
      case sample: True
      with True step
      have "r = read_ips env m (next_offset env (seek env tail)) (next_value env m (seek env tail))
                  0 [] md lo hi"
        by simp
      with True sample show ?thesis by (intro disjI2 exI [of _ tail]) simp
    next
      case other: False
      with True step
      have "scan' env m (tail + ucast (hdr_size m (seek env tail))) head md lo hi = Some r"
        by simp
      from IH [OF this] show ?thesis .
    qed
  qed
qed


lemma scan_returns:
  assumes "scan_ends env m tail head"
  shows "\<exists>r. scan env m tail head md lo hi = Some r"
  using assms
proof (induction rule: scan_ends.induct)
  case (at_head tail head env m)
  then show ?case by (subst scan.simps) simp
next
  case (at_sample tail head m env)
  then show ?case by (subst scan.simps) simp
next
  case (skip tail head m env)
  then show ?case by (subst scan.simps) simp
qed

text \<open>
  The scan ends on every buffer whose records have a size, as long as the write cursor is a
  record away from the end of 64 bits.
\<close>

lemma unat_record_size:
  fixes sz :: "16 word"
  assumes "sz \<noteq> 0"
  shows "0 < unat (ucast sz :: u64)" "unat (ucast sz :: u64) < 2 ^ 16"
proof -
  have "unat sz < 2 ^ LENGTH(16)" by (rule unsigned_less)
  then have b: "unat sz < 2 ^ 16" by simp
  then have "unat sz < 2 ^ 64" by simp
  then have eq: "unat (ucast sz :: u64) = unat sz"
    by (simp add: unsigned_ucast_eq take_bit_nat_eq_self)
  from assms have pos: "0 < unat sz" by (simp add: unat_gt_0)
  from pos b show "0 < unat (ucast sz :: u64)" "unat (ucast sz :: u64) < 2 ^ 16"
    by (simp_all add: eq)
qed

lemma positive_sizes_end:
  assumes sizes: "\<And>off. hdr_size m off \<noteq> 0" and room: "unat head + 2 ^ 16 \<le> 2 ^ 64"
  shows "scan_ends env m tail head"
proof (induction "unat head - unat tail" arbitrary: tail rule: less_induct)
  case less
  show ?case
  proof (cases "tail < head")
    case False
    then show ?thesis by (rule scan_ends.at_head)
  next
    case True
    show ?thesis
    proof (cases "hdr_type m (seek env tail) = PERF_RECORD_SAMPLE")
      case sample: True
      with True show ?thesis by (rule scan_ends.at_sample)
    next
      case other: False
      let ?sz = "ucast (hdr_size m (seek env tail)) :: u64"
      from unat_record_size [OF sizes] have sz: "0 < unat ?sz" "unat ?sz < 2 ^ 16" .
      from True have lt: "unat tail < unat head" by (simp add: word_less_nat_alt)
      with sz room have "unat tail + unat ?sz < 2 ^ LENGTH(64)" by simp
      then have "unat (tail + ?sz) = unat tail + unat ?sz" by (rule unat_add_lem [THEN iffD1])
      with sz lt have "unat head - unat (tail + ?sz) < unat head - unat tail" by simp
      from less [OF this] have "scan_ends env m (tail + ?sz) head" .
      with True other show ?thesis by (rule scan_ends.skip)
    qed
  qed
qed

lemma getCallChain_cases:
  assumes "getCallChain env s uc tid md lo hi = Inr (depth, chain, s')"
  obtains (idle) "depth = 0" "chain = []" "s' = s"
  | (read) ev p where "event_at s tid = Some ev" "\<not> locked ev" "page ev = Some p"
      "scan env (data_bytes p) (data_tail p) (data_head p) md lo hi = Some (depth, chain)"
      "s' = set_event s tid (ev\<lparr>page := Some (p\<lparr>data_tail := data_head p\<rparr>)\<rparr>)"
proof (cases "event_at s tid")
  case None
  with assms show ?thesis by (simp add: getCallChain_def)
next
  case (Some ev)
  show ?thesis
  proof (cases "locked ev")
    case True
    with Some assms idle show ?thesis by (simp add: getCallChain_def)
  next
    case False
    show ?thesis
    proof (cases "page ev")
      case None
      with Some False assms idle show ?thesis by (simp add: getCallChain_def)
    next
      case p: (Some p)
      show ?thesis
      proof (cases "scan env (data_bytes p) (data_tail p) (data_head p) md lo hi")
        case None
        with Some False p assms show ?thesis by (simp add: getCallChain_def)
      next
        case r: (Some r)
        with Some False p assms have "r = (depth, chain)"
          and "s' = set_event s tid (ev\<lparr>page := Some (p\<lparr>data_tail := data_head p\<rparr>)\<rparr>)"
          by (simp_all add: getCallChain_def split: prod.splits)
        with Some False p r read show ?thesis by simp
      qed
    qed
  qed
qed

lemma getCallChain_returns:
  assumes "event_at s tid = Some ev" "\<not> locked ev" "page ev = Some p"
    "scan_ends env (data_bytes p) (data_tail p) (data_head p)"
  shows "\<exists>depth chain. getCallChain env s uc tid md lo hi
           = Inr (depth, chain, set_event s tid (ev\<lparr>page := Some (p\<lparr>data_tail := data_head p\<rparr>)\<rparr>))"
proof -
  from scan_returns [OF assms(4), of md lo hi]
  obtain depth chain
    where "scan env (data_bytes p) (data_tail p) (data_head p) md lo hi = Some (depth, chain)"
    by auto
  with assms(1-3) show ?thesis by (simp add: getCallChain_def)
qed

lemma page_at_set_event:
  "event_at s tid = Some old \<Longrightarrow> page_at (set_event s tid ev) tid = page ev"
  by (simp add: page_at_def event_at_set_event)

text \<open>
  C1 (as amended). Whenever \<^verbatim>\<open>getCallChain\<close> returns, the depth is the number of
  entries written and is at most \<open>max_depth\<close>, or 0 when \<open>max_depth\<close> is negative; no entry
  lies in the range from \<open>jit_min_address\<close> up to \<open>jit_max_address\<close>, the latter excluded.
  The entries are those of one sample record of the buffer: its addresses in order, context
  markers left out, up to the first address inside the range, which is not written and ends
  the decoding, and \<open>max_depth\<close> of them at most.
\<close>

theorem call_chain_is_capped_and_stops_at_excluded_range:
  assumes "getCallChain env s uc tid md lo hi = Inr (depth, chain, s')"
  shows "depth = int (length chain) \<and> depth \<le> max md 0
       \<and> (\<forall>a \<in> set chain. \<not> (lo \<le> a \<and> a < hi))
       \<and> (chain = [] \<or>
            (\<exists>ev p t. event_at s tid = Some ev \<and> page ev = Some p \<and> t < data_head p
               \<and> hdr_type (data_bytes p) (seek env t) = PERF_RECORD_SAMPLE
               \<and> chain = call_chain_of md lo hi (sample_ips env (data_bytes p) (seek env t))))"
  using assms
proof (cases rule: getCallChain_cases)
  case idle
  then show ?thesis by simp
next
  case (read ev p)
  from scan_result [OF read(4)] show ?thesis
  proof
    assume "(depth, chain) = (0, [])"
    then show ?thesis by simp
  next
    assume "\<exists>t. t < data_head p \<and> hdr_type (data_bytes p) (seek env t) = PERF_RECORD_SAMPLE
       \<and> (depth, chain) = read_ips env (data_bytes p) (next_offset env (seek env t))
            (next_value env (data_bytes p) (seek env t)) 0 [] md lo hi"
    then obtain t where t: "t < data_head p"
      "hdr_type (data_bytes p) (seek env t) = PERF_RECORD_SAMPLE"
      and r: "(depth, chain) = read_ips env (data_bytes p) (next_offset env (seek env t))
            (next_value env (data_bytes p) (seek env t)) 0 [] md lo hi"
      by blast
    from r have chain: "chain = call_chain_of md lo hi (sample_ips env (data_bytes p) (seek env t))"
      and depth: "depth = int (length chain)"
      by (simp_all add: read_ips_chain sample_ips_def)
    from chain have "\<forall>a \<in> set chain. \<not> (lo \<le> a \<and> a < hi)"
      using set_call_chain_of(1) by blast
    moreover from chain depth have "depth \<le> max md 0"
      using length_call_chain_of by simp
    moreover from read(1,3) t chain
    have "\<exists>ev p t. event_at s tid = Some ev \<and> page ev = Some p \<and> t < data_head p
               \<and> hdr_type (data_bytes p) (seek env t) = PERF_RECORD_SAMPLE
               \<and> chain = call_chain_of md lo hi (sample_ips env (data_bytes p) (seek env t))"
      by blast
    ultimately show ?thesis using depth by simp
  qed
qed

lemmas ring_eval =
  hdr_type_def hdr_size_def seek_def next_offset_def next_value_def load64_def load32_def
  load16_def le_bytes_def PERF_RECORD_SAMPLE_def PERF_CONTEXT_MAX_def

lemma example_slot_7:
  "event_at example_state 7 = Some (example_slot example_page)"
  by (simp add: event_at_def example_state_def example_slot_def)

lemma example_scan:
  "scan example_env (data_bytes example_page) 0 64 8 0x2000 0x2800 = Some (1, [0x1000])"
  by (simp add: scan.simps read_ips.simps ring_eval example_page_def example_env_def)

lemma example_scan_negative:
  "scan example_env (data_bytes example_page) 0 64 (- 1) 0 0 = Some (0, [])"
  by (simp add: scan.simps read_ips.simps ring_eval example_page_def example_env_def)

lemma example_call:
  "getCallChain example_env example_state example_ucontext 7 8 0x2000 0x2800
     = Inr (1, [0x1000], example_state_read)"
  using example_scan
  by (simp add: getCallChain_def example_slot_7 example_state_read_def)
     (simp add: example_slot_def example_page_def)

theorem call_chain_is_capped_and_stops_at_excluded_range_witness:
  "getCallChain example_env example_state example_ucontext 7 8 0x2000 0x2800
     = Inr (1, [0x1000], example_state_read)
   \<and> (1::int) = int (length [0x1000::u64]) \<and> (1::int) \<le> max 8 0
   \<and> \<not> (0x2000 \<le> (0x1000::u64) \<and> (0x1000::u64) < 0x2800)"
  using call_chain_is_capped_and_stops_at_excluded_range [OF example_call] example_call
  by simp

text \<open>
  C1 as stated fails for a negative \<open>max_depth\<close>: nothing is written and 0 is returned,
  which is more than \<open>max_depth\<close>.
\<close>

theorem negative_max_depth_returns_zero:
  "getCallChain example_env example_state example_ucontext 7 (- 1) 0 0
     = Inr (0, [], example_state_read)
   \<and> \<not> (0::int) \<le> - 1"
  using example_scan_negative
  by (simp add: getCallChain_def example_slot_7 example_state_read_def)
     (simp add: example_slot_def example_page_def)

lemma call_moves_tail:
  assumes call: "getCallChain env s uc tid md lo hi = Inr (depth, chain, s')"
    and q: "page_at s tid = Some q" and inv: "data_tail q \<le> data_head q"
  shows "\<exists>q'. page_at s' tid = Some q' \<and> data_tail q \<le> data_tail q'
           \<and> data_tail q' \<le> data_head q'"
  using call
proof (cases rule: getCallChain_cases)
  case idle
  with q inv show ?thesis by simp
next
  case (read ev p)
  from q read(1,3) have "p = q" by (simp add: page_at_def)
  with read(1,5) inv show ?thesis by (simp add: page_at_set_event)
qed

lemma ring_run_monotone:
  assumes "ring_run env tid s t" "page_at s tid = Some p" "data_tail p \<le> data_head p"
  shows "\<exists>q. page_at t tid = Some q \<and> data_tail p \<le> data_tail q \<and> data_tail q \<le> data_head q"
  using assms
proof (induction rule: ring_run.induct)
  case (idle env tid s)
  then show ?case by simp
next
  case (call env tid s t uc max_depth jit_min_address jit_max_address depth chain u)
  from call.IH [OF call.prems] obtain q where q: "page_at t tid = Some q"
    "data_tail p \<le> data_tail q" "data_tail q \<le> data_head q"
    by blast
  from call_moves_tail [OF call.hyps(2) q(1) q(3)] obtain q' where
    "page_at u tid = Some q'" "data_tail q \<le> data_tail q'" "data_tail q' \<le> data_head q'"
    by blast
  with q(2) show ?case by auto
next
  case (publish env tid s t ev p' q')
  from publish.IH [OF publish.prems] obtain q where q: "page_at t tid = Some q"
    "data_tail p \<le> data_tail q" "data_tail q \<le> data_head q"
    by blast
  from q(1) publish.hyps(2,3) have "p' = q" by (simp add: page_at_def)
  with publish.hyps(4) have "data_tail q' = data_tail q" "data_head q \<le> data_head q'"
    by (simp_all add: kernel_publish_def)
  with q(2,3) publish.hyps(2) show ?case by (simp add: page_at_set_event)
qed

text \<open>
  C7. When \<^verbatim>\<open>getCallChain\<close> has the guard and the buffer is mapped, a call that returns
  leaves \<^verbatim>\<open>data_tail\<close> at the \<^verbatim>\<open>data_head\<close> it read on entry, whatever the records
  were; and it does return when the records from \<^verbatim>\<open>data_tail\<close> lead to a sample or to
  \<^verbatim>\<open>data_head\<close>. Over any sequence of such calls for a thread, with the kernel
  publishing records in between, \<^verbatim>\<open>data_tail\<close> never decreases and never passes
  \<^verbatim>\<open>data_head\<close>, given that it did not at the beginning.
\<close>

theorem read_cursor_follows_write_cursor:
  "(event_at s tid = Some ev \<and> \<not> locked ev \<and> page ev = Some p \<longrightarrow>
      (\<forall>depth chain s'.
          getCallChain env s uc tid md lo hi = Inr (depth, chain, s') \<longrightarrow>
          page_at s' tid = Some (p\<lparr>data_tail := data_head p\<rparr>))
      \<and> (scan_ends env (data_bytes p) (data_tail p) (data_head p) \<longrightarrow>
          (\<exists>depth chain s'. getCallChain env s uc tid md lo hi = Inr (depth, chain, s'))))
   \<and> (ring_run env tid s t \<and> page_at s tid = Some p \<and> data_tail p \<le> data_head p \<longrightarrow>
        (\<exists>q. page_at t tid = Some q \<and> data_tail p \<le> data_tail q
             \<and> data_tail q \<le> data_head q))"
proof (intro conjI impI allI)
  fix depth chain s'
  assume slot: "event_at s tid = Some ev \<and> \<not> locked ev \<and> page ev = Some p"
    and call: "getCallChain env s uc tid md lo hi = Inr (depth, chain, s')"
  from slot call
  have "s' = set_event s tid (ev\<lparr>page := Some (p\<lparr>data_tail := data_head p\<rparr>)\<rparr>)"
    by (auto simp: getCallChain_def split: option.splits)
  with slot show "page_at s' tid = Some (p\<lparr>data_tail := data_head p\<rparr>)"
    by (simp add: page_at_set_event)
next
  assume slot: "event_at s tid = Some ev \<and> \<not> locked ev \<and> page ev = Some p"
    and ends: "scan_ends env (data_bytes p) (data_tail p) (data_head p)"
  from slot have "event_at s tid = Some ev" "\<not> locked ev" "page ev = Some p" by simp_all
  from getCallChain_returns [OF this ends]
  show "\<exists>depth chain s'. getCallChain env s uc tid md lo hi = Inr (depth, chain, s')"
    by blast
next
  assume "ring_run env tid s t \<and> page_at s tid = Some p \<and> data_tail p \<le> data_head p"
  then have "ring_run env tid s t" "page_at s tid = Some p" "data_tail p \<le> data_head p"
    by simp_all
  then show "\<exists>q. page_at t tid = Some q \<and> data_tail p \<le> data_tail q
      \<and> data_tail q \<le> data_head q"
    by (rule ring_run_monotone)
qed

lemma example_scan_ends:
  "scan_ends example_env (data_bytes example_page) (data_tail example_page)
     (data_head example_page)"
proof -
  have "scan_ends example_env (data_bytes example_page) 16 64"
    by (rule scan_ends.at_sample) (simp_all add: ring_eval example_page_def example_env_def)
  then have "scan_ends example_env (data_bytes example_page)
      (0 + ucast (hdr_size (data_bytes example_page) (seek example_env 0))) 64"
    by (simp add: ring_eval example_page_def example_env_def)
  then have "scan_ends example_env (data_bytes example_page) 0 64"
    by (rule scan_ends.skip [rotated 2])
       (simp_all add: ring_eval example_page_def example_env_def)
  then show ?thesis by (simp add: example_page_def)
qed

lemma example_published_slot:
  "event_at example_state_published 7 = Some (example_slot example_page_published)"
  by (simp add: event_at_def example_state_published_def set_event_def example_state_def)

lemma example_scan_again:
  "scan example_env (data_bytes example_page_published) 64 128 8 0 0 = Some (1, [0x5000])"
  by (simp add: scan.simps read_ips.simps ring_eval example_page_published_def example_env_def)

lemma example_call_again:
  "getCallChain example_env example_state_published example_ucontext 7 8 0 0
     = Inr (1, [0x5000], example_state_read_again)"
  using example_scan_again
  by (simp add: getCallChain_def example_published_slot)
     (simp add: example_slot_def example_page_published_def example_state_read_again_def
        example_state_published_def)

lemma example_read_slot:
  "event_at example_state_read 7 = Some (example_slot (example_page\<lparr>data_tail := 64\<rparr>))"
  by (simp add: event_at_def example_state_read_def set_event_def example_state_def)

lemma example_run: "ring_run example_env 7 example_state example_state_read_again"
proof -
  have "ring_run example_env 7 example_state example_state_read"
    by (rule ring_run.call [OF ring_run.idle example_call])
  moreover have "page (example_slot (example_page\<lparr>data_tail := 64\<rparr>))
      = Some (example_page\<lparr>data_tail := 64\<rparr>)"
    by (simp add: example_slot_def)
  moreover have "kernel_publish (example_page\<lparr>data_tail := 64\<rparr>) example_page_published"
    by (simp add: kernel_publish_def example_page_def example_page_published_def)
  ultimately have "ring_run example_env 7 example_state
      (set_event example_state_read 7
         ((example_slot (example_page\<lparr>data_tail := 64\<rparr>))\<lparr>page := Some example_page_published\<rparr>))"
    by (rule ring_run.publish [OF _ example_read_slot])
  then have "ring_run example_env 7 example_state example_state_published"
    by (simp add: example_state_read_def example_state_published_def example_slot_def)
  then show ?thesis by (rule ring_run.call [OF _ example_call_again])
qed

theorem read_cursor_follows_write_cursor_witness:
  "page_at example_state_read 7 = Some (example_page\<lparr>data_tail := data_head example_page\<rparr>)
   \<and> (\<exists>depth chain s'.
        getCallChain example_env example_state example_ucontext 7 8 0x2000 0x2800
          = Inr (depth, chain, s'))
   \<and> (\<exists>q. page_at example_state_read_again 7 = Some q
          \<and> data_tail example_page \<le> data_tail q \<and> data_tail q \<le> data_head q)"
proof -
  have slot: "event_at example_state 7 = Some (example_slot example_page)"
    "\<not> locked (example_slot example_page)"
    "page (example_slot example_page) = Some example_page"
    by (simp_all add: example_slot_7 example_slot_def)
  have start: "page_at example_state 7 = Some example_page"
    "data_tail example_page \<le> data_head example_page"
    by (simp_all add: page_at_def example_slot_7 example_slot_def example_page_def)
  from read_cursor_follows_write_cursor [of example_state 7 "example_slot example_page"
      example_page example_env example_ucontext 8 "0x2000" "0x2800" example_state_read_again]
    slot start example_scan_ends example_run example_call
  show ?thesis by simp
qed

end
